theory Spec2Isabelle
  imports Main
begin

section \<open>Python values: exceptions and list indexing\<close>

text \<open>
  The program is \<^verbatim>\<open>src/main.py\<close>. Integers are Python's unbounded integers (\<open>int\<close>),
  strings are \<open>string\<close>, and every mutation of an object is an update of the state that is
  passed along. An exception does not undo the assignments made before it, so a call yields
  either \<open>Return s\<close> or \<open>Raise e s\<close>, both with the state reached.
\<close>

datatype error = IndexError | KeyError | AttributeError | EOFError | ZeroDivisionError

datatype 'a result = Return 'a | Raise error 'a

definition state_of :: "'a result \<Rightarrow> 'a" where
  "state_of r = (case r of Return s \<Rightarrow> s | Raise e s \<Rightarrow> s)"

definition returns :: "'a result \<Rightarrow> bool" where
  "returns r = (case r of Return s \<Rightarrow> True | Raise e s \<Rightarrow> False)"

definition and_then :: "'a result \<Rightarrow> ('a \<Rightarrow> 'a result) \<Rightarrow> 'a result" where
  "and_then r f = (case r of Return s \<Rightarrow> f s | Raise e s \<Rightarrow> Raise e s)"

text \<open>\<^verbatim>\<open>xs[i]\<close>: a negative index counts from the end, an index out of range raises.\<close>

definition py_pos :: "nat \<Rightarrow> int \<Rightarrow> nat option" where
  "py_pos n i =
     (let j = (if i < 0 then i + int n else i)
      in if 0 \<le> j \<and> j < int n then Some (nat j) else None)"

definition py_get :: "'a list \<Rightarrow> int \<Rightarrow> 'a option" where
  "py_get xs i = (case py_pos (length xs) i of None \<Rightarrow> None | Some k \<Rightarrow> Some (xs ! k))"

text \<open>The object stored at \<^verbatim>\<open>xs[i]\<close> is replaced by its mutated version.\<close>

definition py_set :: "'a list \<Rightarrow> int \<Rightarrow> 'a \<Rightarrow> 'a list" where
  "py_set xs i v = (case py_pos (length xs) i of None \<Rightarrow> xs | Some k \<Rightarrow> xs[k := v])"

section \<open>Tiles, items, blocks, player\<close>

datatype TileType =
  Grass | Ice | Water | Rock | RockFloor | Teleporter | Sludge | Lava
  | HealBlock | OneTimeHeal | QuickSand

text \<open>The only item class that the registry instantiates is \<^verbatim>\<open>Key\<close>.\<close>

datatype Item = Key

definition item_name :: "Item \<Rightarrow> string" where
  "item_name it = (case it of Key \<Rightarrow> ''key'')"

text \<open>
  The fields \<^verbatim>\<open>x\<close>, \<^verbatim>\<open>y\<close> of \<^verbatim>\<open>Player\<close> and \<^verbatim>\<open>Block\<close> are \<open>player_x\<close>, \<open>player_y\<close>,
  \<open>block_x\<close>, \<open>block_y\<close>. The attribute \<^verbatim>\<open>move_direction\<close> does not exist before the first
  turn (\<open>None\<close>). The player's \<^verbatim>\<open>map\<close> is the field \<open>game_map\<close> of the whole state below.
\<close>

record Player =
  health :: int
  currency :: int
  hydration :: int
  inventory :: "string list"
  player_x :: int
  player_y :: int
  game_over :: bool
  chosen_level :: "string option"
  move_direction :: "string option"

record Block =
  tiletype :: TileType
  item :: "Item option"
  has_player :: bool
  block_x :: int
  block_y :: int

text \<open>
  What the program shows: the lines it prints and the banners it draws, and, for the trace
  of a turn, each call of \<^verbatim>\<open>Block.leave\<close> and \<^verbatim>\<open>Block.enter\<close> (either ends by redrawing
  its cell) with the coordinates of the block.
\<close>

datatype event =
  Call_leave int int
  | Call_enter int int
  | Print_levels
  | Print_pickup string
  | Print_sludge int
  | Print_dehydrated int
  | Text_win
  | Text_lose

record GameMap =
  map_name :: string
  win_condition :: "Player \<Rightarrow> bool"
  blocks :: "Block list list"

record level =
  player_start_x :: int
  player_start_y :: int
  level_win_condition :: "Player \<Rightarrow> bool"
  level_terrain :: "int list list"
  level_items :: "int list list"

text \<open>The whole state: the player object, its map, what was shown, and the lines still
  to be read by \<^verbatim>\<open>raw_input\<close>.\<close>

record Game =
  player :: Player
  game_map :: "GameMap option"
  shown :: "event list"
  stdin :: "string list"

section \<open>DATA: registries and the level catalog\<close>

definition terrain :: "int \<rightharpoonup> TileType" where
  "terrain = map_of
     [(0, Grass), (1, Ice), (2, Water), (3, Rock), (4, RockFloor), (5, Teleporter),
      (6, Sludge), (7, Lava), (8, HealBlock), (9, OneTimeHeal), (10, QuickSand)]"

text \<open>The dictionary \<^verbatim>\<open>item\<close>: code 0 builds no item, code 1 a key.\<close>

definition item_registry :: "int \<rightharpoonup> Item option" where
  "item_registry = map_of [(0, None), (1, Some Key)]"

definition keys_win :: "nat \<Rightarrow> Player \<Rightarrow> bool" where
  "keys_win n p = (count_list (inventory p) ''key'' = n)"

definition demo :: level where
  "demo = \<lparr>player_start_x = 2, player_start_y = 0, level_win_condition = keys_win 3,
     level_terrain =
      [[2, 2, 1, 2, 2, 2],
       [2, 1, 1, 2, 2, 2],
       [1, 1, 2, 2, 1, 1],
       [1, 1, 1, 1, 1, 1],
       [2, 2, 2, 2, 2, 1],
       [2, 2, 2, 2, 1, 1]],
     level_items =
      [[0, 0, 0, 0, 0, 0],
       [0, 0, 0, 0, 0, 0],
       [1, 0, 0, 0, 0, 1],
       [0, 0, 0, 0, 0, 0],
       [0, 0, 0, 0, 0, 0],
       [0, 0, 0, 0, 1, 0]]\<rparr>"

definition quicksand :: level where
  "quicksand = \<lparr>player_start_x = 3, player_start_y = 1, level_win_condition = keys_win 3,
     level_terrain =
      [[10, 10, 10, 10, 10],
       [10, 10, 10, 10, 10],
       [10, 10, 10, 10, 10],
       [10, 10, 10, 10, 10],
       [10, 10, 10, 10, 10]],
     level_items =
      [[0, 0, 0, 0, 0],
       [0, 0, 0, 0, 0],
       [0, 1, 0, 0, 0],
       [0, 0, 0, 0, 0],
       [0, 0, 0, 1, 0]]\<rparr>"

definition teleport_across :: level where
  "teleport_across = \<lparr>player_start_x = 3, player_start_y = 3, level_win_condition = keys_win 1,
     level_terrain =
      [[0, 0, 0, 0, 0, 0, 0, 0, 0, 0, 0, 3, 3, 4, 4],
       [0, 0, 0, 0, 0, 0, 0, 0, 0, 0, 0, 3, 3, 4, 4],
       [0, 0, 0, 0, 0, 0, 0, 0, 0, 0, 0, 3, 4, 4, 4],
       [0, 0, 0, 0, 0, 0, 0, 0, 0, 0, 3, 3, 4, 4, 4],
       [0, 0, 0, 0, 0, 0, 0, 0, 0, 0, 3, 3, 3, 4, 4],
       [0, 0, 0, 0, 0, 0, 0, 0, 0, 3, 3, 3, 3, 4, 4],
       [0, 0, 0, 0, 0, 0, 0, 0, 0, 3, 3, 4, 4, 4, 4],
       [0, 0, 0, 0, 0, 0, 0, 0, 5, 3, 3, 4, 4, 4, 4],
       [0, 0, 0, 0, 0, 0, 0, 0, 0, 3, 3, 4, 4, 4, 4],
       [0, 0, 0, 0, 0, 0, 0, 0, 0, 3, 3, 4, 4, 4, 4],
       [0, 0, 0, 0, 0, 0, 0, 0, 0, 3, 3, 4, 4, 4, 4],
       [0, 0, 0, 0, 0, 0, 0, 0, 3, 3, 3, 4, 4, 4, 4],
       [0, 2, 2, 0, 0, 0, 0, 0, 3, 3, 4, 4, 4, 4, 4],
       [2, 2, 2, 2, 0, 0, 0, 0, 3, 3, 4, 4, 4, 4, 4],
       [2, 2, 2, 2, 2, 2, 0, 0, 3, 3, 3, 4, 4, 4, 4]],
     level_items =
      [[0, 0, 0, 0, 0, 0, 0, 0, 0, 0, 0, 0, 0, 0, 0],
       [0, 0, 0, 0, 0, 0, 0, 0, 0, 0, 0, 0, 0, 0, 0],
       [0, 0, 0, 0, 0, 0, 0, 0, 0, 0, 0, 0, 0, 0, 0],
       [0, 0, 0, 0, 0, 0, 0, 0, 0, 0, 0, 0, 0, 0, 0],
       [0, 0, 0, 0, 0, 0, 0, 0, 0, 0, 0, 0, 0, 0, 0],
       [0, 0, 0, 0, 0, 0, 0, 0, 0, 0, 0, 0, 0, 0, 0],
       [0, 0, 0, 0, 0, 0, 0, 0, 0, 0, 0, 0, 0, 0, 0],
       [0, 0, 0, 0, 0, 0, 0, 0, 0, 0, 0, 0, 0, 0, 0],
       [0, 0, 0, 0, 0, 0, 0, 0, 0, 0, 0, 0, 0, 1, 0],
       [0, 0, 0, 0, 0, 0, 0, 0, 0, 0, 0, 0, 0, 0, 0],
       [0, 0, 0, 0, 0, 0, 0, 0, 0, 0, 0, 0, 0, 0, 0],
       [0, 0, 0, 0, 0, 0, 0, 0, 0, 0, 0, 0, 0, 0, 0],
       [0, 0, 0, 0, 0, 0, 0, 0, 0, 0, 0, 0, 0, 0, 0],
       [0, 0, 0, 0, 0, 0, 0, 0, 0, 0, 0, 0, 0, 0, 0],
       [0, 0, 0, 0, 0, 0, 0, 0, 0, 0, 0, 0, 0, 0, 0]]\<rparr>"

definition sludge_lavafields :: level where
  "sludge_lavafields = \<lparr>player_start_x = 3, player_start_y = 0,
     level_win_condition = keys_win 2,
     level_terrain =
      [[6, 6, 6, 4, 6, 6, 7],
       [6, 7, 7, 7, 6, 6, 7],
       [6, 7, 7, 7, 6, 7, 3],
       [6, 6, 3, 6, 6, 3, 4],
       [3, 6, 3, 6, 7, 6, 6],
       [4, 4, 4, 6, 6, 6, 7],
       [4, 4, 4, 4, 6, 7, 7]],
     level_items =
      [[0, 0, 0, 0, 0, 0, 0],
       [0, 0, 0, 0, 0, 0, 0],
       [0, 0, 0, 0, 0, 0, 0],
       [0, 0, 0, 0, 0, 0, 1],
       [0, 0, 0, 0, 0, 0, 0],
       [0, 1, 0, 0, 0, 0, 0],
       [0, 0, 0, 0, 0, 0, 0]]\<rparr>"

definition heal_corridor :: level where
  "heal_corridor = \<lparr>player_start_x = 0, player_start_y = 1, level_win_condition = keys_win 1,
     level_terrain =
      [[3, 3, 3, 3, 3, 3, 3],
       [4, 6, 6, 6, 6, 6, 3],
       [3, 3, 3, 3, 3, 6, 8],
       [3, 6, 6, 6, 6, 6, 3],
       [8, 6, 3, 3, 3, 3, 3],
       [3, 6, 6, 6, 6, 8, 3],
       [3, 3, 3, 3, 3, 3, 3]],
     level_items =
      [[0, 0, 0, 0, 0, 0, 0],
       [0, 0, 0, 0, 0, 0, 0],
       [0, 0, 0, 0, 0, 0, 0],
       [0, 0, 0, 0, 0, 0, 0],
       [0, 0, 0, 0, 0, 0, 0],
       [0, 0, 0, 0, 0, 1, 0],
       [0, 0, 0, 0, 0, 0, 0]]\<rparr>"

definition maps :: "(string \<times> level) list" where
  "maps = [(''demo'', demo), (''quicksand'', quicksand),
           (''teleport_across'', teleport_across),
           (''sludge_lavafields'', sludge_lavafields),
           (''heal_corridor'', heal_corridor)]"

section \<open>TILES and ITEMS\<close>

text \<open>
  A tile or item callback works on the block that owns it, the player and the output; the
  back reference \<^verbatim>\<open>self.block\<close> is always the owning block.
\<close>

type_synonym cell = "Block \<times> Player \<times> event list"

definition Player_has :: "Player \<Rightarrow> string \<Rightarrow> bool" where
  "Player_has p n = (n \<in> set (inventory p))"

definition Player_claim :: "string \<Rightarrow> cell \<Rightarrow> cell" where
  "Player_claim n c =
     (case c of (b, p, out) \<Rightarrow>
        (b, p\<lparr>inventory := inventory p @ [n]\<rparr>, out @ [Print_pickup n]))"

definition set_tile :: "TileType \<Rightarrow> cell \<Rightarrow> cell" where
  "set_tile t c = (case c of (b, p, out) \<Rightarrow> (b\<lparr>tiletype := t\<rparr>, p, out))"

definition set_item :: "Item option \<Rightarrow> cell \<Rightarrow> cell" where
  "set_item it c = (case c of (b, p, out) \<Rightarrow> (b\<lparr>item := it\<rparr>, p, out))"

definition tile_can_enter :: "TileType \<Rightarrow> Player \<Rightarrow> bool" where
  "tile_can_enter t p =
     (case t of Water \<Rightarrow> Player_has p ''flippers'' | Rock \<Rightarrow> False | _ \<Rightarrow> True)"

definition tile_can_leave :: "TileType \<Rightarrow> Player \<Rightarrow> bool" where
  "tile_can_leave t p = True"

definition tile_enter :: "TileType \<Rightarrow> cell \<Rightarrow> cell" where
  "tile_enter t c =
     (case t of
        Water \<Rightarrow> (case c of (b, p, out) \<Rightarrow> (b, p\<lparr>hydration := 100\<rparr>, out))
      | Sludge \<Rightarrow>
          (case c of (b, p, out) \<Rightarrow>
             (b, p\<lparr>health := health p - 8\<rparr>, out @ [Print_sludge (health p - 8)]))
      | _ \<Rightarrow> c)"

definition tile_leave :: "TileType \<Rightarrow> cell \<Rightarrow> cell" where
  "tile_leave t c = (case t of Ice \<Rightarrow> set_tile Water c | _ \<Rightarrow> c)"

definition Item_claim :: "Item \<Rightarrow> cell \<Rightarrow> cell" where
  "Item_claim it c = set_item None (Player_claim (item_name it) c)"

definition item_enter :: "Item \<Rightarrow> cell \<Rightarrow> cell" where
  "item_enter it c = (case it of Key \<Rightarrow> Item_claim it c)"

section \<open>Block\<close>

definition Block_can_enter :: "Block \<Rightarrow> Player \<Rightarrow> bool" where
  "Block_can_enter b p = tile_can_enter (tiletype b) p"

definition Block_can_leave :: "Block \<Rightarrow> Player \<Rightarrow> bool" where
  "Block_can_leave b p = tile_can_leave (tiletype b) p"

definition called :: "event \<Rightarrow> cell \<Rightarrow> cell" where
  "called e c = (case c of (b, p, out) \<Rightarrow> (b, p, out @ [e]))"

definition Block_enter :: "cell \<Rightarrow> cell" where
  "Block_enter c0 =
     (let c = called (Call_enter (block_x (fst c0)) (block_y (fst c0))) c0;
          c1 = tile_enter (tiletype (fst c)) c;
          c2 = (case item (fst c1) of None \<Rightarrow> c1 | Some it \<Rightarrow> item_enter it c1)
      in case c2 of (b, p, out) \<Rightarrow> (b\<lparr>has_player := True\<rparr>, p, out))"

definition Block_leave :: "cell \<Rightarrow> cell" where
  "Block_leave c0 =
     (let c = called (Call_leave (block_x (fst c0)) (block_y (fst c0))) c0;
          c1 = tile_leave (tiletype (fst c)) c
      in case c1 of (b, p, out) \<Rightarrow> (b\<lparr>has_player := False\<rparr>, p, out))"

section \<open>Map\<close>

definition grid_get :: "Block list list \<Rightarrow> int \<Rightarrow> int \<Rightarrow> Block option" where
  "grid_get bs bx by =
     (case py_get bs by of None \<Rightarrow> None | Some row \<Rightarrow> py_get row bx)"

definition grid_set :: "Block list list \<Rightarrow> int \<Rightarrow> int \<Rightarrow> Block \<Rightarrow> Block list list" where
  "grid_set bs bx by b =
     (case py_get bs by of None \<Rightarrow> bs | Some row \<Rightarrow> py_set bs by (py_set row bx b))"

text \<open>One \<^verbatim>\<open>Block(terrain[...], item[...], x, y)\<close> of the construction loop, with the
  flag set when the coordinates are the player's.\<close>

definition make_block :: "level \<Rightarrow> Player \<Rightarrow> int \<Rightarrow> int \<Rightarrow> error + Block" where
  "make_block t p by bx =
     (case py_get (level_terrain t) by of None \<Rightarrow> Inl IndexError | Some trow \<Rightarrow>
     (case py_get trow bx of None \<Rightarrow> Inl IndexError | Some tc \<Rightarrow>
     (case terrain tc of None \<Rightarrow> Inl KeyError | Some tile \<Rightarrow>
     (case py_get (level_items t) by of None \<Rightarrow> Inl IndexError | Some irow \<Rightarrow>
     (case py_get irow bx of None \<Rightarrow> Inl IndexError | Some ic \<Rightarrow>
     (case item_registry ic of None \<Rightarrow> Inl KeyError | Some it \<Rightarrow>
        Inr \<lparr>tiletype = tile, item = it,
             has_player = (bx = player_x p \<and> by = player_y p),
             block_x = bx, block_y = by\<rparr>))))))"

text \<open>A loop that appends each result stops at the first exception.\<close>

fun collect :: "(error + 'a) list \<Rightarrow> error + 'a list" where
  "collect [] = Inr []"
| "collect (Inl e # rs) = Inl e"
| "collect (Inr v # rs) = (case collect rs of Inl e \<Rightarrow> Inl e | Inr vs \<Rightarrow> Inr (v # vs))"

definition build_map :: "string \<Rightarrow> level \<Rightarrow> Player \<Rightarrow> error + GameMap" where
  "build_map n t p =
     (let map_height = length (level_terrain t)
      in case py_get (level_terrain t) 0 of None \<Rightarrow> Inl IndexError | Some r0 \<Rightarrow>
        (let map_width = length r0
         in if map_width = 0 then Inl ZeroDivisionError
            else (case collect (map (\<lambda>j. collect (map (\<lambda>i. make_block t p (int j) (int i))
                                                   [0..<map_width]))
                                 [0..<map_height]) of
                    Inl e \<Rightarrow> Inl e
                  | Inr bs \<Rightarrow>
                      Inr \<lparr>map_name = n, win_condition = level_win_condition t,
                           blocks = bs\<rparr>)))"

definition Map_init :: "string \<Rightarrow> Player \<Rightarrow> error + GameMap" where
  "Map_init n p = (case map_of maps n of None \<Rightarrow> Inl KeyError | Some t \<Rightarrow> build_map n t p)"

section \<open>Player\<close>

definition new_Player :: Player where
  "new_Player = \<lparr>health = 100, currency = 0, hydration = 100, inventory = [],
     player_x = 0, player_y = 0, game_over = False, chosen_level = None,
     move_direction = None\<rparr>"

definition in_maps :: "string option \<Rightarrow> bool" where
  "in_maps c = (case c of None \<Rightarrow> False | Some n \<Rightarrow> n \<in> set (map fst maps))"

text \<open>The \<^verbatim>\<open>while\<close> loop of \<^verbatim>\<open>choose_level\<close>: each round reads one line; at the end of
  the input \<^verbatim>\<open>raw_input\<close> raises.\<close>

fun choose_loop :: "string option \<Rightarrow> string list \<Rightarrow> (string option \<times> string list) result" where
  "choose_loop c [] = (if in_maps c then Return (c, []) else Raise EOFError (c, []))"
| "choose_loop c (l # ls) = (if in_maps c then Return (c, l # ls) else choose_loop (Some l) ls)"

definition choose_level :: "Game \<Rightarrow> Game result" where
  "choose_level g =
     (let g1 = g\<lparr>shown := shown g @ [Print_levels]\<rparr>;
          upd = (\<lambda>(c, ins). g1\<lparr>player := (player g1)\<lparr>chosen_level := c\<rparr>, stdin := ins\<rparr>)
      in case choose_loop (chosen_level (player g1)) (stdin g1) of
           Return r \<Rightarrow> Return (upd r)
         | Raise e r \<Rightarrow> Raise e (upd r))"

definition start_level :: "Game \<Rightarrow> Game result" where
  "start_level g =
     (case chosen_level (player g) of None \<Rightarrow> Raise KeyError g | Some n \<Rightarrow>
     (case map_of maps n of None \<Rightarrow> Raise KeyError g | Some t \<Rightarrow>
       (let p = (player g)\<lparr>player_x := player_start_x t, player_y := player_start_y t,
                           health := 100, currency := 0, inventory := []\<rparr>;
            g1 = g\<lparr>player := p\<rparr>
        in (case Map_init n p of
              Inl e \<Rightarrow> Raise e g1
            | Inr m \<Rightarrow> Return (g1\<lparr>game_map := Some m\<rparr>)))))"

definition win :: "Game \<Rightarrow> Game" where
  "win g = g\<lparr>shown := shown g @ [Text_win], player := (player g)\<lparr>game_over := True\<rparr>\<rparr>"

definition lose :: "Game \<Rightarrow> Game" where
  "lose g = g\<lparr>shown := shown g @ [Text_lose], player := (player g)\<lparr>game_over := True\<rparr>\<rparr>"

text \<open>A block method called on \<^verbatim>\<open>self.map.blocks[by][bx]\<close>.\<close>

definition at_block :: "int \<Rightarrow> int \<Rightarrow> (cell \<Rightarrow> cell) \<Rightarrow> Game \<Rightarrow> Game result" where
  "at_block bx by f g =
     (case game_map g of None \<Rightarrow> Raise AttributeError g | Some m \<Rightarrow>
     (case grid_get (blocks m) bx by of None \<Rightarrow> Raise IndexError g | Some b \<Rightarrow>
     (case f (b, player g, shown g) of (b', p', out') \<Rightarrow>
        Return (g\<lparr>player := p', shown := out',
                  game_map := Some (m\<lparr>blocks := grid_set (blocks m) bx by b'\<rparr>)\<rparr>))))"

definition candidate :: "string \<Rightarrow> int \<Rightarrow> int \<Rightarrow> int \<times> int" where
  "candidate dir px py =
     (if dir = ''left'' then (px - 1, py)
      else if dir = ''right'' then (px + 1, py)
      else if dir = ''up'' then (px, py - 1)
      else if dir = ''down'' then (px, py + 1)
      else (px, py))"

text \<open>Lines 296 to 299: leave the current block, enter the new one, take its position.\<close>

definition move_to :: "int \<Rightarrow> int \<Rightarrow> Game \<Rightarrow> Game result" where
  "move_to new_x new_y g =
     and_then (at_block (player_x (player g)) (player_y (player g)) Block_leave g)
       (\<lambda>g1. and_then (at_block new_x new_y Block_enter g1)
          (\<lambda>g2. Return (g2\<lparr>player := (player g2)\<lparr>player_x := new_x, player_y := new_y\<rparr>\<rparr>)))"

text \<open>Lines 300 to 306: three independent \<^verbatim>\<open>if\<close> statements.\<close>

definition check_health :: "Game \<Rightarrow> Game" where
  "check_health g = (if health (player g) \<le> 0 then lose g else g)"

definition check_hydration :: "Game \<Rightarrow> Game" where
  "check_hydration g =
     (if hydration (player g) < 10
      then g\<lparr>player := (player g)\<lparr>health := health (player g) - 2\<rparr>,
             shown := shown g @ [Print_dehydrated (health (player g) - 2)]\<rparr>
      else g)"

definition check_win :: "Game \<Rightarrow> Game result" where
  "check_win g =
     (case game_map g of None \<Rightarrow> Raise AttributeError g
      | Some m \<Rightarrow> Return (if win_condition m (player g) then win g else g))"

definition end_of_turn :: "Game \<Rightarrow> Game result" where
  "end_of_turn g = check_win (check_hydration (check_health g))"

definition reset :: "Game \<Rightarrow> Game result" where
  "reset g =
     and_then (choose_level (g\<lparr>player := (player g)\<lparr>chosen_level := None\<rparr>\<rparr>))
       (\<lambda>g1. and_then (start_level g1)
          (\<lambda>g2. Return (g2\<lparr>player := (player g2)\<lparr>game_over := False\<rparr>\<rparr>)))"

text \<open>The condition of line 293 to 295, evaluated left to right; \<open>None\<close> is an
  \<^verbatim>\<open>IndexError\<close> raised by one of its subscripts.\<close>

definition may_move :: "Block list list \<Rightarrow> Player \<Rightarrow> int \<Rightarrow> int \<Rightarrow> bool option" where
  "may_move bs p new_x new_y =
     (if new_x > -1 \<and> new_x < int (length bs) \<and> new_y > -1
      then case py_get bs 0 of None \<Rightarrow> None | Some r0 \<Rightarrow>
             if new_y < int (length r0)
             then case grid_get bs new_x new_y of None \<Rightarrow> None
                  | Some d \<Rightarrow> Some (Block_can_enter d p)
             else Some False
      else Some False)"

definition take_turn :: "string \<Rightarrow> Game \<Rightarrow> Game result" where
  "take_turn dir g =
     (if game_over (player g) then reset g
      else
        let g0 = g\<lparr>player := (player g)\<lparr>move_direction := Some dir\<rparr>\<rparr>;
            p = player g0
        in case game_map g0 of None \<Rightarrow> Raise AttributeError g0 | Some m \<Rightarrow>
          (case grid_get (blocks m) (player_x p) (player_y p) of
             None \<Rightarrow> Raise IndexError g0
           | Some cur \<Rightarrow>
               if \<not> Block_can_leave cur p then Return g0
               else (case candidate dir (player_x p) (player_y p) of (new_x, new_y) \<Rightarrow>
                 (case may_move (blocks m) p new_x new_y of
                    None \<Rightarrow> Raise IndexError g0
                  | Some ok \<Rightarrow>
                      if ok then and_then (move_to new_x new_y g0) end_of_turn
                      else end_of_turn g0))))"

section \<open>The program: setup and keyPressed\<close>

text \<open>\<^verbatim>\<open>setup\<close> (here \<open>setup_program\<close>) makes a new player; the global \<^verbatim>\<open>chosen_level\<close> is \<^verbatim>\<open>None\<close>, so the level
  is asked for.\<close>

definition setup_program :: "Game \<Rightarrow> Game result" where
  "setup_program g =
     and_then (choose_level (g\<lparr>player := new_Player, game_map := None\<rparr>)) start_level"

definition keyPressed :: "string \<Rightarrow> Game \<Rightarrow> Game result" where
  "keyPressed k g =
     (if k = ''w'' then take_turn ''up'' g
      else if k = ''a'' then take_turn ''left'' g
      else if k = ''s'' then take_turn ''down'' g
      else if k = ''d'' then take_turn ''right'' g
      else if k = ''q'' then setup_program g
      else Return g)"

text \<open>The states of a run: the program starts with \<^verbatim>\<open>setup\<close> and nothing shown, every key
  press that returns gives the next state, and the user may type further lines at any time.\<close>

inductive reachable :: "Game \<Rightarrow> bool" where
  start: "shown g0 = [] \<Longrightarrow> setup_program g0 = Return g \<Longrightarrow> reachable g"
| key: "reachable g \<Longrightarrow> keyPressed k g = Return g' \<Longrightarrow> reachable g'"
| typed: "reachable g \<Longrightarrow> reachable (g\<lparr>stdin := stdin g @ ls\<rparr>)"

section \<open>Notions used to state the properties\<close>

text \<open>The calls of \<^verbatim>\<open>Block.leave\<close> and \<^verbatim>\<open>Block.enter\<close> among what was shown.\<close>

definition is_call :: "event \<Rightarrow> bool" where
  "is_call e = (case e of Call_leave i j \<Rightarrow> True | Call_enter i j \<Rightarrow> True | _ \<Rightarrow> False)"

definition calls :: "event list \<Rightarrow> event list" where
  "calls es = filter is_call es"

text \<open>A grid of \<open>h\<close> rows of \<open>w\<close> cells each, and the coordinates on it.\<close>

definition is_grid :: "nat \<Rightarrow> nat \<Rightarrow> 'a list list \<Rightarrow> bool" where
  "is_grid w h bs = (length bs = h \<and> list_all (\<lambda>row. length row = w) bs)"

definition on_grid :: "nat \<Rightarrow> nat \<Rightarrow> int \<Rightarrow> int \<Rightarrow> bool" where
  "on_grid w h bx by = (0 \<le> bx \<and> bx < int w \<and> 0 \<le> by \<and> by < int h)"

text \<open>The state after line 280, \<^verbatim>\<open>self.move_direction = dir\<close>.\<close>

definition turned :: "string \<Rightarrow> Game \<Rightarrow> Game" where
  "turned dir g = g\<lparr>player := (player g)\<lparr>move_direction := Some dir\<rparr>\<rparr>"

definition tile_at :: "Game \<Rightarrow> int \<Rightarrow> int \<Rightarrow> TileType option" where
  "tile_at g bx by =
     (case game_map g of None \<Rightarrow> None
      | Some m \<Rightarrow> map_option tiletype (grid_get (blocks m) bx by))"

text \<open>The coordinates of the blocks whose \<^verbatim>\<open>has_player\<close> flag is set, row by row.\<close>

definition flagged :: "Block list list \<Rightarrow> (int \<times> int) list" where
  "flagged bs = map (\<lambda>b. (block_x b, block_y b)) (filter has_player (concat bs))"

text \<open>
  A level template that \<^verbatim>\<open>Map.__init__\<close> can build: a rectangle of registered terrain
  codes, an item grid of the same shape with registered codes, and a start position on it.
  \<open>fresh_blocks\<close> is the grid built from the template alone.
\<close>

definition level_width :: "level \<Rightarrow> nat" where
  "level_width t = (case level_terrain t of [] \<Rightarrow> 0 | r0 # rs \<Rightarrow> length r0)"

definition level_height :: "level \<Rightarrow> nat" where
  "level_height t = length (level_terrain t)"

definition level_ok :: "level \<Rightarrow> bool" where
  "level_ok t =
     (0 < level_width t \<and> 0 < level_height t \<and>
      list_all (\<lambda>r. length r = level_width t \<and> list_all (\<lambda>c. terrain c \<noteq> None) r)
        (level_terrain t) \<and>
      length (level_items t) = level_height t \<and>
      list_all (\<lambda>r. length r = level_width t \<and> list_all (\<lambda>c. item_registry c \<noteq> None) r)
        (level_items t) \<and>
      on_grid (level_width t) (level_height t) (player_start_x t) (player_start_y t))"

definition fresh_block :: "level \<Rightarrow> int \<Rightarrow> int \<Rightarrow> nat \<Rightarrow> nat \<Rightarrow> Block" where
  "fresh_block t px py j i =
     \<lparr>tiletype = the (terrain (level_terrain t ! j ! i)),
      item = the (item_registry (level_items t ! j ! i)),
      has_player = (int i = px \<and> int j = py),
      block_x = int i, block_y = int j\<rparr>"

definition fresh_blocks :: "level \<Rightarrow> int \<Rightarrow> int \<Rightarrow> Block list list" where
  "fresh_blocks t px py =
     map (\<lambda>j. map (\<lambda>i. fresh_block t px py j i) [0..<level_width t]) [0..<level_height t]"

text \<open>
  What holds of the board through a run: the map is a grid, the player is on it, the flag is
  set on the block at the player's position and on no other, and every block carries its
  own coordinates. And of the water supply: hydration is 100 and the dehydration line was
  never printed.
\<close>

definition board_ok :: "Game \<Rightarrow> bool" where
  "board_ok g =
     (\<exists>m w h. game_map g = Some m \<and> is_grid w h (blocks m) \<and>
        on_grid w h (player_x (player g)) (player_y (player g)) \<and>
        (\<forall>j<h. \<forall>i<w.
           has_player (blocks m ! j ! i)
             = (int i = player_x (player g) \<and> int j = player_y (player g)) \<and>
           block_x (blocks m ! j ! i) = int i \<and> block_y (blocks m ! j ! i) = int j))"

definition hydrated :: "Game \<Rightarrow> bool" where
  "hydrated g = (hydration (player g) = 100 \<and> (\<forall>n. Print_dehydrated n \<notin> set (shown g)))"

subsection \<open>Concrete games\<close>

text \<open>The program started with the given lines typed at the level prompt.\<close>

definition start_state :: "string list \<Rightarrow> Game" where
  "start_state ls = \<lparr>player = new_Player, game_map = None, shown = [], stdin = ls\<rparr>"

definition demo_game :: Game where
  "demo_game = state_of (setup_program (start_state [''demo'']))"

definition corridor_game :: Game where
  "corridor_game = state_of (setup_program (start_state [''heal_corridor'']))"

text \<open>A grid that is not square: three rows of two cells, the player in the right column.\<close>

definition grass :: "int \<Rightarrow> int \<Rightarrow> bool \<Rightarrow> Block" where
  "grass bx by f = \<lparr>tiletype = Grass, item = None, has_player = f, block_x = bx, block_y = by\<rparr>"

definition narrow_map :: GameMap where
  "narrow_map = \<lparr>map_name = ''narrow'', win_condition = keys_win 1,
     blocks = [[grass 0 0 False, grass 1 0 True],
               [grass 0 1 False, grass 1 1 False],
               [grass 0 2 False, grass 1 2 False]]\<rparr>"

definition narrow_game :: Game where
  "narrow_game = \<lparr>player = new_Player\<lparr>player_x := 1, player_y := 0\<rparr>,
     game_map = Some narrow_map, shown = [], stdin = []\<rparr>"

definition ice_block :: Block where
  "ice_block = \<lparr>tiletype = Ice, item = None, has_player = True, block_x = 2, block_y = 0\<rparr>"

definition water_block :: Block where
  "water_block = \<lparr>tiletype = Water, item = None, has_player = False, block_x = 3, block_y = 0\<rparr>"

definition key_block :: Block where
  "key_block = \<lparr>tiletype = Ice, item = Some Key, has_player = False, block_x = 0, block_y = 2\<rparr>"

text \<open>The player as the win predicate of line 305 receives it: after the two checks before
  it, each applied on its own.\<close>

definition after_checks :: "Player \<Rightarrow> Player" where
  "after_checks p = p\<lparr>health := (if hydration p < 10 then health p - 2 else health p),
                       game_over := (game_over p \<or> health p \<le> 0)\<rparr>"

text \<open>A sequence of key presses.\<close>

fun run :: "string list \<Rightarrow> Game \<Rightarrow> Game result" where
  "run [] g = Return g"
| "run (k # ks) g = and_then (keyPressed k g) (run ks)"

text \<open>The sludge level walked until health runs out: thirteen steps onto Sludge.\<close>

definition lost_game :: Game where
  "lost_game = state_of (and_then (setup_program (start_state [''sludge_lavafields'', ''demo'']))
     (run [''a'', ''a'', ''d'', ''a'', ''d'', ''a'', ''d'', ''a'', ''d'', ''a'', ''d'', ''a'', ''d'']))"

text \<open>The demo level walked over its ice to the three keys.\<close>

definition won_game :: Game where
  "won_game = state_of (and_then (setup_program (start_state [''demo'', ''demo'']))
     (run [''s'', ''a'', ''s'', ''a'', ''s'', ''d'', ''d'', ''d'', ''d'', ''w'', ''d'',
           ''s'', ''s'', ''s'', ''a'']))"



definition sludge_game :: Game where
  "sludge_game = state_of (and_then (setup_program (start_state [''heal_corridor''])) (run [''d'']))"

section \<open>Tiles and items on one block\<close>

lemmas cell_defs = Block_enter_def Block_leave_def called_def tile_enter_def tile_leave_def
  item_enter_def Item_claim_def Player_claim_def set_item_def set_tile_def item_name_def

text \<open>
  C5. On a block whose tile is Ice, the tile's \<^verbatim>\<open>enter\<close> changes nothing, and
  \<^verbatim>\<open>Block.enter\<close> leaves the tile Ice (with no item on the block it leaves the player as
  it was); \<^verbatim>\<open>Block.leave\<close> replaces the tile by Water and does not touch the player. On a
  Water block \<^verbatim>\<open>leave\<close> replaces nothing: the tile stays Water through every later
  \<^verbatim>\<open>leave\<close> and \<^verbatim>\<open>enter\<close>.
\<close>

theorem Ice_melts_on_leave:
  assumes "tiletype b = Ice"
  shows "tile_enter Ice (b, p, out) = (b, p, out) \<and>
         fst (snd (tile_enter (tiletype b) (b, p, out))) = p \<and>
         (item b = None \<longrightarrow> fst (snd (Block_enter (b, p, out))) = p) \<and>
         tiletype (fst (Block_enter (b, p, out))) = Ice \<and>
         tiletype (fst (Block_leave (b, p, out))) = Water \<and>
         fst (snd (Block_leave (b, p, out))) = p \<and>
         (\<forall>c q out2. tiletype c = Water \<longrightarrow>
            tile_leave Water (c, q, out2) = (c, q, out2) \<and>
            tiletype (fst (Block_leave (c, q, out2))) = Water \<and>
            tiletype (fst (Block_enter (c, q, out2))) = Water)"
  using assms
  by (cases "item b") (auto simp add: cell_defs Let_def split: option.splits Item.splits)

theorem Ice_melts_on_leave_witness:
  "tiletype ice_block = Ice \<and>
   tiletype (fst (Block_enter (ice_block, new_Player, []))) = Ice \<and>
   fst (snd (Block_enter (ice_block, new_Player, []))) = new_Player \<and>
   tiletype (fst (Block_leave (ice_block, new_Player, []))) = Water \<and>
   tiletype (fst (Block_leave (fst (Block_leave (ice_block, new_Player, [])), new_Player, [])))
     = Water"
proof -
  have h: "tiletype ice_block = Ice" by (simp add: ice_block_def)
  have i: "item ice_block = None" by (simp add: ice_block_def)
  from Ice_melts_on_leave [OF h, of new_Player "[]"] h i show ?thesis by simp
qed

text \<open>
  C6. On a Water block \<^verbatim>\<open>can_enter\<close> is true exactly when the inventory contains
  "flippers", and entering sets hydration to 100 whatever it was.
\<close>

theorem Water_flippers_and_hydration:
  "tiletype b = Water \<Longrightarrow>
     Block_can_enter b p = (''flippers'' \<in> set (inventory p)) \<and>
     tile_can_enter Water p = Player_has p ''flippers'' \<and>
     hydration (fst (snd (tile_enter Water (b, p, out)))) = 100 \<and>
     hydration (fst (snd (Block_enter (b, p, out)))) = 100"
  by (cases "item b")
    (simp_all add: Block_can_enter_def tile_can_enter_def Player_has_def cell_defs Let_def
       split: Item.splits)

theorem Water_flippers_and_hydration_witness:
  "tiletype water_block = Water \<and>
   Block_can_enter water_block (new_Player\<lparr>inventory := [''flippers''], hydration := 7\<rparr>) \<and>
   \<not> Block_can_enter water_block new_Player \<and>
   hydration (fst (snd (Block_enter
      (water_block, new_Player\<lparr>inventory := [''flippers''], hydration := 7\<rparr>, [])))) = 100"
proof -
  have h: "tiletype water_block = Water" by (simp add: water_block_def)
  from Water_flippers_and_hydration [OF h, of "new_Player\<lparr>inventory := [''flippers''], hydration := 7\<rparr>" "[]"]
    Water_flippers_and_hydration [OF h, of new_Player "[]"] h
  show ?thesis by (simp add: new_Player_def)
qed

text \<open>
  C7. Entering a block that holds a Key appends one "key" to the inventory and leaves the
  block without an item; a block without an item stays so through every \<^verbatim>\<open>leave\<close> and
  \<^verbatim>\<open>enter\<close>, and entering it leaves the inventory as it was.
\<close>

theorem Key_claimed_once:
  assumes "item b = Some Key" and "Block_enter (b, p, out) = (b1, p1, out1)"
  shows "inventory p1 = inventory p @ [''key''] \<and> item b1 = None \<and>
         (\<forall>c q out2. item c = None \<longrightarrow>
            inventory (fst (snd (Block_enter (c, q, out2)))) = inventory q \<and>
            item (fst (Block_enter (c, q, out2))) = None \<and>
            item (fst (Block_leave (c, q, out2))) = None)"
  using assms
  by (cases "tiletype b") (auto simp add: cell_defs Let_def split: TileType.splits)

theorem Key_claimed_once_witness:
  "item key_block = Some Key \<and>
   inventory (fst (snd (Block_enter (key_block, new_Player, [])))) = [''key''] \<and>
   item (fst (Block_enter (key_block, new_Player, []))) = None \<and>
   inventory (fst (snd (Block_enter (fst (Block_enter (key_block, new_Player, [])),
      fst (snd (Block_enter (key_block, new_Player, []))), [])))) = [''key'']"
proof -
  have h: "item key_block = Some Key" by (simp add: key_block_def)
  obtain b1 p1 out1 where e: "Block_enter (key_block, new_Player, []) = (b1, p1, out1)"
    by (cases "Block_enter (key_block, new_Player, [])") auto
  from Key_claimed_once [OF h e] h e show ?thesis by (simp add: new_Player_def)
qed

section \<open>One turn\<close>

lemma py_get_nonneg: "0 \<le> i \<Longrightarrow> py_get xs i = (if i < int (length xs) then Some (xs ! nat i) else None)"
  by (simp add: py_get_def py_pos_def)

lemma py_set_nonneg: "0 \<le> i \<Longrightarrow> py_set xs i v = (if i < int (length xs) then xs[nat i := v] else xs)"
  by (simp add: py_set_def py_pos_def)

lemma is_grid_row: "is_grid w h bs \<Longrightarrow> j < h \<Longrightarrow> length (bs ! j) = w"
  by (simp add: is_grid_def list_all_length)

lemma grid_get_on:
  "is_grid w h bs \<Longrightarrow> on_grid w h bx by \<Longrightarrow> grid_get bs bx by = Some (bs ! nat by ! nat bx)"
  by (auto simp add: grid_get_def py_get_nonneg on_grid_def is_grid_def list_all_length)

lemma grid_get_off:
  "is_grid w h bs \<Longrightarrow> 0 \<le> bx \<Longrightarrow> 0 \<le> by \<Longrightarrow> \<not> on_grid w h bx by \<Longrightarrow> grid_get bs bx by = None"
  by (auto simp add: grid_get_def py_get_nonneg on_grid_def is_grid_def list_all_length)

lemma may_move_off:
  "is_grid w h bs \<Longrightarrow> \<not> on_grid w h nx ny \<Longrightarrow> may_move bs p nx ny \<noteq> Some True"
  by (auto simp add: may_move_def grid_get_off split: option.splits)

lemma can_leave [simp]: "Block_can_leave b p"
  by (simp add: Block_can_leave_def tile_can_leave_def)

lemma can_enter_turned [simp]:
  "Block_can_enter d (p\<lparr>move_direction := v\<rparr>) = Block_can_enter d p"
  by (simp add: Block_can_enter_def tile_can_enter_def Player_has_def split: TileType.splits)

lemma may_move_turned [simp]:
  "may_move bs (p\<lparr>move_direction := v\<rparr>) nx ny = may_move bs p nx ny"
  by (simp add: may_move_def split: option.splits)

lemma take_turn_playing:
  assumes "\<not> game_over (player g)" and "game_map g = Some m"
    and "grid_get (blocks m) (player_x (player g)) (player_y (player g)) = Some cur"
    and "candidate dir (player_x (player g)) (player_y (player g)) = (nx, ny)"
  shows "take_turn dir g =
     (case may_move (blocks m) (player g) nx ny of
        None \<Rightarrow> Raise IndexError (turned dir g)
      | Some ok \<Rightarrow> if ok then and_then (move_to nx ny (turned dir g)) end_of_turn
                  else end_of_turn (turned dir g))"
  using assms unfolding turned_def by (simp add: take_turn_def Let_def)

lemma end_of_turn_frame:
  "player_x (player (state_of (end_of_turn g))) = player_x (player g) \<and>
   player_y (player (state_of (end_of_turn g))) = player_y (player g) \<and>
   game_map (state_of (end_of_turn g)) = game_map g \<and>
   calls (shown (state_of (end_of_turn g))) = calls (shown g)"
  by (simp add: end_of_turn_def check_win_def check_hydration_def check_health_def lose_def
      win_def state_of_def calls_def is_call_def split: option.splits)

lemma Block_leave_eq:
  "Block_leave (b, p, out) =
     (b\<lparr>tiletype := (if tiletype b = Ice then Water else tiletype b), has_player := False\<rparr>,
      p, out @ [Call_leave (block_x b) (block_y b)])"
  by (cases "tiletype b") (simp_all add: Block_leave_def called_def tile_leave_def set_tile_def Let_def)

lemma Block_enter_eq:
  "Block_enter (b, p, out) =
     (b\<lparr>item := None, has_player := True\<rparr>,
      p\<lparr>hydration := (if tiletype b = Water then 100 else hydration p),
        health := (if tiletype b = Sludge then health p - 8 else health p),
        inventory := (case item b of None \<Rightarrow> inventory p | Some it \<Rightarrow> inventory p @ [''key''])\<rparr>,
      out @ [Call_enter (block_x b) (block_y b)]
          @ (if tiletype b = Sludge then [Print_sludge (health p - 8)] else [])
          @ (case item b of None \<Rightarrow> [] | Some it \<Rightarrow> [Print_pickup ''key'']))"
  by (cases "tiletype b"; cases "item b")
    (simp_all add: Block_enter_def called_def tile_enter_def item_enter_def Item_claim_def
       Player_claim_def set_item_def item_name_def Let_def split: Item.splits)

lemma at_block_leave_pos:
  "player_x (player (state_of (at_block bx by Block_leave g))) = player_x (player g) \<and>
   player_y (player (state_of (at_block bx by Block_leave g))) = player_y (player g)"
  by (simp add: at_block_def state_of_def Block_leave_eq split: option.splits)

lemma at_block_enter_pos:
  "player_x (player (state_of (at_block bx by Block_enter g))) = player_x (player g) \<and>
   player_y (player (state_of (at_block bx by Block_enter g))) = player_y (player g)"
  by (simp add: at_block_def state_of_def Block_enter_eq split: option.splits)

lemma state_of_simps [simp]:
  "state_of (Return s) = s" "state_of (Raise e s) = s"
  by (simp_all add: state_of_def)

lemma and_then_simps [simp]:
  "and_then (Return s) f = f s" "and_then (Raise e s) f = Raise e s"
  by (simp_all add: and_then_def)

lemma move_to_pos:
  "(player_x (player (state_of (and_then (move_to nx ny g) end_of_turn))),
    player_y (player (state_of (and_then (move_to nx ny g) end_of_turn))))
   \<in> {(player_x (player g), player_y (player g)), (nx, ny)}"
proof (cases "at_block (player_x (player g)) (player_y (player g)) Block_leave g")
  case (Raise e g1)
  with at_block_leave_pos [of "player_x (player g)" "player_y (player g)" g]
  show ?thesis by (simp add: move_to_def)
next
  case (Return g1)
  with at_block_leave_pos [of "player_x (player g)" "player_y (player g)" g]
  have p1: "player_x (player g1) = player_x (player g)" "player_y (player g1) = player_y (player g)"
    by simp_all
  show ?thesis
  proof (cases "at_block nx ny Block_enter g1")
    case (Raise e g2)
    with at_block_enter_pos [of nx ny g1] p1 Return show ?thesis by (simp add: move_to_def)
  next
    case r2: (Return g2)
    with Return show ?thesis by (simp add: move_to_def end_of_turn_frame)
  qed
qed

lemma checks_map [simp]:
  "game_map (check_health g) = game_map g" "game_map (check_hydration g) = game_map g"
  by (simp_all add: check_health_def check_hydration_def lose_def)

lemma end_of_turn_returns: "game_map g = Some m \<Longrightarrow> \<exists>g'. end_of_turn g = Return g'"
  by (simp add: end_of_turn_def check_win_def)

text \<open>
  C1. On a grid of \<open>h\<close> rows of \<open>w\<close> cells, with the player on the grid and the game not
  over, a turn whose candidate destination is off the grid leaves the player's position and
  the map as they were and calls neither \<^verbatim>\<open>leave\<close> nor \<^verbatim>\<open>enter\<close>. This is the state at the
  end of the call, whether it returns or raises: where the grid is not square the test of
  line 293 compares \<^verbatim>\<open>new_x\<close> with the number of rows and \<^verbatim>\<open>new_y\<close> with the number of
  columns, and a destination that passes it off the grid raises \<^verbatim>\<open>IndexError\<close> at the
  subscript, before anything is changed.
\<close>

theorem off_grid_move_blocked:
  assumes "\<not> game_over (player g)" and "game_map g = Some m"
    and "is_grid w h (blocks m)"
    and "on_grid w h (player_x (player g)) (player_y (player g))"
    and "candidate dir (player_x (player g)) (player_y (player g)) = (nx, ny)"
    and "\<not> on_grid w h nx ny"
  shows "player_x (player (state_of (take_turn dir g))) = player_x (player g) \<and>
         player_y (player (state_of (take_turn dir g))) = player_y (player g) \<and>
         calls (shown (state_of (take_turn dir g))) = calls (shown g) \<and>
         game_map (state_of (take_turn dir g)) = game_map g"
proof -
  have cur: "grid_get (blocks m) (player_x (player g)) (player_y (player g))
      = Some (blocks m ! nat (player_y (player g)) ! nat (player_x (player g)))"
    using assms(3,4) by (rule grid_get_on)
  have no: "may_move (blocks m) (player g) nx ny \<noteq> Some True"
    using assms(3,6) by (rule may_move_off)
  have t: "take_turn dir g =
     (case may_move (blocks m) (player g) nx ny of
        None \<Rightarrow> Raise IndexError (turned dir g)
      | Some ok \<Rightarrow> if ok then and_then (move_to nx ny (turned dir g)) end_of_turn
                  else end_of_turn (turned dir g))"
    using assms(1,2) cur assms(5) by (rule take_turn_playing)
  show ?thesis
  proof (cases "may_move (blocks m) (player g) nx ny")
    case None
    with t show ?thesis by (simp add: state_of_def turned_def)
  next
    case (Some ok)
    with no have "\<not> ok" by simp
    with t Some have "take_turn dir g = end_of_turn (turned dir g)" by simp
    then show ?thesis using end_of_turn_frame [of "turned dir g"] by (simp add: turned_def)
  qed
qed


theorem off_grid_move_blocked_witness:
  "\<not> game_over (player narrow_game) \<and> game_map narrow_game = Some narrow_map \<and>
   is_grid 2 3 (blocks narrow_map) \<and>
   on_grid 2 3 (player_x (player narrow_game)) (player_y (player narrow_game)) \<and>
   candidate ''right'' (player_x (player narrow_game)) (player_y (player narrow_game)) = (2, 0) \<and>
   \<not> on_grid 2 3 2 0 \<and>
   player_x (player (state_of (take_turn ''right'' narrow_game))) = 1 \<and>
   player_y (player (state_of (take_turn ''right'' narrow_game))) = 0 \<and>
   calls (shown (state_of (take_turn ''right'' narrow_game))) = [] \<and>
   game_map (state_of (take_turn ''right'' narrow_game)) = Some narrow_map \<and>
   \<not> returns (take_turn ''right'' narrow_game)"
proof -
  have a: "\<not> game_over (player narrow_game)" by (simp add: narrow_game_def new_Player_def)
  have b: "game_map narrow_game = Some narrow_map" by (simp add: narrow_game_def)
  have c: "is_grid 2 3 (blocks narrow_map)" by (simp add: narrow_map_def is_grid_def)
  have d: "on_grid 2 3 (player_x (player narrow_game)) (player_y (player narrow_game))"
    by (simp add: narrow_game_def on_grid_def)
  have e: "candidate ''right'' (player_x (player narrow_game)) (player_y (player narrow_game)) = (2, 0)"
    by (simp add: narrow_game_def candidate_def)
  have f: "\<not> on_grid 2 3 2 0" by (simp add: on_grid_def)
  have r: "\<not> returns (take_turn ''right'' narrow_game)" by code_simp
  have x: "player_x (player narrow_game) = 1" "player_y (player narrow_game) = 0"
    "calls (shown narrow_game) = []"
    by (simp_all add: narrow_game_def calls_def)
  from off_grid_move_blocked [OF a b c d e f] a b c d e f r x show ?thesis by simp
qed

text \<open>
  C8. When the destination is a block of the grid that cannot be entered (Rock always, Water
  without flippers), the turn returns with the player's position and the map as they were,
  and neither \<^verbatim>\<open>leave\<close> nor \<^verbatim>\<open>enter\<close> is called.
\<close>

theorem blocked_tile_no_leave:
  assumes "\<not> game_over (player g)" and "game_map g = Some m"
    and "grid_get (blocks m) (player_x (player g)) (player_y (player g)) = Some cur"
    and "candidate dir (player_x (player g)) (player_y (player g)) = (nx, ny)"
    and "0 \<le> nx" and "0 \<le> ny"
    and "grid_get (blocks m) nx ny = Some d"
    and "\<not> Block_can_enter d (player g)"
  shows "\<exists>g'. take_turn dir g = Return g' \<and>
           player_x (player g') = player_x (player g) \<and>
           player_y (player g') = player_y (player g) \<and>
           calls (shown g') = calls (shown g) \<and>
           game_map g' = game_map g"
proof -
  have "may_move (blocks m) (player g) nx ny = Some False"
    using assms(5-8) by (auto simp add: may_move_def grid_get_def py_get_nonneg split: option.splits if_splits)
  with take_turn_playing [OF assms(1-4)]
  have t: "take_turn dir g = end_of_turn (turned dir g)" by simp
  have "game_map (turned dir g) = Some m" using assms(2) by (simp add: turned_def)
  then obtain g' where r: "end_of_turn (turned dir g) = Return g'"
    using end_of_turn_returns by blast
  with end_of_turn_frame [of "turned dir g"] t show ?thesis by (simp add: turned_def)
qed


theorem blocked_tile_no_leave_witness:
  "\<not> game_over (player corridor_game) \<and>
   candidate ''up'' (player_x (player corridor_game)) (player_y (player corridor_game)) = (0, 0) \<and>
   tile_at corridor_game 0 0 = Some Rock \<and>
   returns (take_turn ''up'' corridor_game) \<and>
   player_x (player (state_of (take_turn ''up'' corridor_game))) = 0 \<and>
   player_y (player (state_of (take_turn ''up'' corridor_game))) = 1 \<and>
   calls (shown (state_of (take_turn ''up'' corridor_game))) = [] \<and>
   game_map (state_of (take_turn ''up'' corridor_game)) = game_map corridor_game"
proof -
  have a: "\<not> game_over (player corridor_game)" by code_simp
  have x: "player_x (player corridor_game) = 0" "player_y (player corridor_game) = 1"
    "calls (shown corridor_game) = []"
    by code_simp+
  have c: "candidate ''up'' (player_x (player corridor_game)) (player_y (player corridor_game)) = (0, 0)"
    by (simp add: x candidate_def)
  have t: "tile_at corridor_game 0 0 = Some Rock" "tile_at corridor_game 0 1 = Some RockFloor"
    by code_simp+
  from t obtain m cur d where m: "game_map corridor_game = Some m"
    and cur: "grid_get (blocks m) (player_x (player corridor_game)) (player_y (player corridor_game)) = Some cur"
    and d: "grid_get (blocks m) 0 0 = Some d" and rock: "tiletype d = Rock"
    by (auto simp add: tile_at_def x split: option.splits)
  have n: "\<not> Block_can_enter d (player corridor_game)"
    using rock by (simp add: Block_can_enter_def tile_can_enter_def)
  from blocked_tile_no_leave [OF a m cur c _ _ d n] a c t x show ?thesis
    by (auto simp add: returns_def)
qed


lemma returns_eq: "returns r \<Longrightarrow> r = Return (state_of r)"
  by (cases r) (simp_all add: returns_def)

lemma is_grid_update:
  "is_grid w h bs \<Longrightarrow> length r = w \<Longrightarrow> is_grid w h (bs[j := r])"
  by (cases "j < length bs") (auto simp add: is_grid_def list_all_length nth_list_update)

lemma grid_set_on:
  "is_grid w h bs \<Longrightarrow> on_grid w h bx by \<Longrightarrow>
     grid_set bs bx by b = bs[nat by := (bs ! nat by)[nat bx := b]]"
  by (auto simp add: grid_set_def py_get_nonneg py_set_nonneg on_grid_def is_grid_def
      list_all_length)

lemma is_grid_set:
  "is_grid w h bs \<Longrightarrow> on_grid w h bx by \<Longrightarrow> is_grid w h (grid_set bs bx by b)"
proof -
  assume g: "is_grid w h bs" and o: "on_grid w h bx by"
  from o have "nat by < h" unfolding on_grid_def by linarith
  with g have "length ((bs ! nat by)[nat bx := b]) = w" by (simp add: is_grid_row)
  with g have "is_grid w h (bs[nat by := (bs ! nat by)[nat bx := b]])" by (rule is_grid_update)
  with g o show ?thesis by (simp add: grid_set_on)
qed

lemma may_move_on:
  "is_grid w h bs \<Longrightarrow> on_grid w h nx ny \<Longrightarrow>
     may_move bs p nx ny
       = Some (nx < int h \<and> ny < int w \<and> Block_can_enter (bs ! nat ny ! nat nx) p)"
proof -
  assume g: "is_grid w h bs" and o: "on_grid w h nx ny"
  from o have h: "0 < h" by (simp add: on_grid_def)
  from g have len: "length bs = h" by (simp add: is_grid_def)
  from g h len have r0: "py_get bs 0 = Some (bs ! 0)" "length (bs ! 0) = w"
    by (simp_all add: py_get_nonneg is_grid_row)
  from o have nn: "nx > -1" "ny > -1" by (simp_all add: on_grid_def)
  show ?thesis by (simp add: may_move_def r0 len nn grid_get_on [OF g o])
qed

lemma at_block_on:
  assumes "game_map g = Some m" and "is_grid w h (blocks m)" and "on_grid w h bx by"
  shows "at_block bx by f g =
     (case f (blocks m ! nat by ! nat bx, player g, shown g) of (b', p', out') \<Rightarrow>
        Return (g\<lparr>player := p', shown := out',
                  game_map := Some (m\<lparr>blocks := grid_set (blocks m) bx by b'\<rparr>)\<rparr>))"
  using assms by (simp add: at_block_def grid_get_on)

text \<open>The state after the two calls and the two assignments of a move, on a grid.\<close>

lemma move_to_on:
  assumes gm: "game_map g = Some m" and grid: "is_grid w h (blocks m)"
    and pos: "on_grid w h (player_x (player g)) (player_y (player g))"
    and dst: "on_grid w h nx ny"
    and cur: "cur = blocks m ! nat (player_y (player g)) ! nat (player_x (player g))"
    and bs1: "bs1 = grid_set (blocks m) (player_x (player g)) (player_y (player g))
                (cur\<lparr>tiletype := (if tiletype cur = Ice then Water else tiletype cur),
                     has_player := False\<rparr>)"
    and d: "d = bs1 ! nat ny ! nat nx"
  shows "move_to nx ny g = Return (g\<lparr>
     player := (player g)\<lparr>
        hydration := (if tiletype d = Water then 100 else hydration (player g)),
        health := (if tiletype d = Sludge then health (player g) - 8 else health (player g)),
        inventory := (case item d of None \<Rightarrow> inventory (player g)
                      | Some it \<Rightarrow> inventory (player g) @ [''key'']),
        player_x := nx, player_y := ny\<rparr>,
     shown := shown g @ [Call_leave (block_x cur) (block_y cur)]
         @ [Call_enter (block_x d) (block_y d)]
         @ (if tiletype d = Sludge then [Print_sludge (health (player g) - 8)] else [])
         @ (case item d of None \<Rightarrow> [] | Some it \<Rightarrow> [Print_pickup ''key'']),
     game_map := Some (m\<lparr>blocks := grid_set bs1 nx ny (d\<lparr>item := None, has_player := True\<rparr>)\<rparr>)\<rparr>)"
proof -
  let ?g1 = "g\<lparr>player := player g, shown := shown g @ [Call_leave (block_x cur) (block_y cur)],
                game_map := Some (m\<lparr>blocks := bs1\<rparr>)\<rparr>"
  have l: "at_block (player_x (player g)) (player_y (player g)) Block_leave g = Return ?g1"
    using at_block_on [OF gm grid pos, of Block_leave] by (simp add: Block_leave_eq cur bs1)
  have g1: "game_map ?g1 = Some (m\<lparr>blocks := bs1\<rparr>)" by simp
  have grid1: "is_grid w h (blocks (m\<lparr>blocks := bs1\<rparr>))"
    using grid pos by (simp add: bs1 is_grid_set)
  have e: "at_block nx ny Block_enter ?g1 =
     (case Block_enter (d, player ?g1, shown ?g1) of (b', p', out') \<Rightarrow>
        Return (?g1\<lparr>player := p', shown := out',
                  game_map := Some (m\<lparr>blocks := bs1, blocks := grid_set bs1 nx ny b'\<rparr>)\<rparr>))"
    using at_block_on [OF g1 grid1 dst, of Block_enter] by (simp add: d)
  show ?thesis
    unfolding move_to_def l and_then_simps e by (simp add: Block_enter_eq)
qed


lemma end_of_turn_eq:
  assumes "game_map g1 = Some m" and "end_of_turn g1 = Return g'"
  shows "player g' = (after_checks (player g1))\<lparr>game_over :=
            (game_over (player g1) \<or> health (player g1) \<le> 0 \<or>
             win_condition m (after_checks (player g1)))\<rparr> \<and>
         shown g' = shown g1
           @ (if health (player g1) \<le> 0 then [Text_lose] else [])
           @ (if hydration (player g1) < 10
              then [Print_dehydrated (health (player g1) - 2)] else [])
           @ (if win_condition m (after_checks (player g1)) then [Text_win] else [])"
proof -
  have p: "player (check_hydration (check_health g1)) = after_checks (player g1)"
    by (simp add: check_hydration_def check_health_def lose_def after_checks_def)
  have s: "shown (check_hydration (check_health g1)) = shown g1
           @ (if health (player g1) \<le> 0 then [Text_lose] else [])
           @ (if hydration (player g1) < 10
              then [Print_dehydrated (health (player g1) - 2)] else [])"
    by (simp add: check_hydration_def check_health_def lose_def)
  from assms(2) have "g' = (if win_condition m (after_checks (player g1))
      then win (check_hydration (check_health g1)) else check_hydration (check_health g1))"
    by (simp add: end_of_turn_def check_win_def assms(1) p)
  then show ?thesis using p s by (simp add: win_def after_checks_def)
qed


lemma grid_set_nth:
  assumes "is_grid w h bs" and "on_grid w h bx by" and "j < h" and "i < w"
  shows "grid_set bs bx by b ! j ! i = (if j = nat by \<and> i = nat bx then b else bs ! j ! i)"
proof -
  from assms(1) have len: "length bs = h" by (simp add: is_grid_def)
  from assms(2) have y: "nat by < h" and x: "nat bx < w" unfolding on_grid_def by linarith+
  from assms(1) y have row: "length (bs ! nat by) = w" by (rule is_grid_row)
  show ?thesis
    using assms(3,4) len y x row
    by (simp add: grid_set_on [OF assms(1,2)] nth_list_update)
qed

lemma grid_get_set_same:
  assumes "is_grid w h bs" and "on_grid w h bx by"
  shows "grid_get (grid_set bs bx by b) bx by = Some b"
proof -
  from assms(2) have lt: "nat by < h" "nat bx < w" unfolding on_grid_def by linarith+
  have "grid_get (grid_set bs bx by b) bx by = Some (grid_set bs bx by b ! nat by ! nat bx)"
    using is_grid_set [OF assms] assms(2) by (rule grid_get_on)
  also have "grid_set bs bx by b ! nat by ! nat bx = b"
    using grid_set_nth [OF assms lt] by simp
  finally show ?thesis .
qed

lemma calls_simps [simp]:
  "calls [] = []" "calls (es @ fs) = calls es @ calls fs"
  "calls (Call_leave i j # es) = Call_leave i j # calls es"
  "calls (Call_enter i j # es) = Call_enter i j # calls es"
  "calls (Print_sludge n # es) = calls es"
  "calls (Print_pickup s # es) = calls es"
  "calls (Print_dehydrated n # es) = calls es"
  "calls (Print_levels # es) = calls es"
  "calls (Text_win # es) = calls es"
  "calls (Text_lose # es) = calls es"
  by (simp_all add: calls_def is_call_def)

section \<open>Runs of the program\<close>

lemma collect_map_Inr: "collect (map Inr vs) = Inr vs"
  by (induction vs) simp_all

lemma catalog_ok: "list_all (\<lambda>(n, t). level_ok t) maps"
  by code_simp

lemma maps_level_ok: "map_of maps n = Some t \<Longrightarrow> level_ok t"
  using catalog_ok by (auto simp add: list_all_iff dest: map_of_SomeD)

lemma make_block_ok:
  assumes "level_ok t" and "j < level_height t" and "i < level_width t"
  shows "make_block t p (int j) (int i) = Inr (fresh_block t (player_x p) (player_y p) j i)"
proof -
  from assms have tr: "length (level_terrain t ! j) = level_width t"
    "terrain (level_terrain t ! j ! i) \<noteq> None"
    by (simp_all add: level_ok_def level_height_def list_all_length)
  from assms have ir: "j < length (level_items t)" "length (level_items t ! j) = level_width t"
    "item_registry (level_items t ! j ! i) \<noteq> None"
    by (simp_all add: level_ok_def level_height_def list_all_length)
  from assms(2) have jl: "j < length (level_terrain t)" by (simp add: level_height_def)
  show ?thesis
    using tr ir jl assms(3)
    by (auto simp add: make_block_def py_get_nonneg fresh_block_def)
qed

lemma build_map_ok:
  assumes "level_ok t"
  shows "build_map n t p = Inr \<lparr>map_name = n, win_condition = level_win_condition t,
           blocks = fresh_blocks t (player_x p) (player_y p)\<rparr>"
proof -
  from assms obtain r0 rs where r: "level_terrain t = r0 # rs"
    by (cases "level_terrain t") (simp_all add: level_ok_def level_height_def)
  then have r0: "py_get (level_terrain t) 0 = Some r0" "length r0 = level_width t"
    by (simp_all add: py_get_nonneg level_width_def)
  from assms have w: "0 < level_width t" by (simp add: level_ok_def)
  have row: "collect (map (\<lambda>i. make_block t p (int j) (int i)) [0..<level_width t])
      = Inr (map (\<lambda>i. fresh_block t (player_x p) (player_y p) j i) [0..<level_width t])"
    if "j < level_height t" for j
  proof -
    have "map (\<lambda>i. make_block t p (int j) (int i)) [0..<level_width t]
        = map Inr (map (\<lambda>i. fresh_block t (player_x p) (player_y p) j i) [0..<level_width t])"
      using make_block_ok [OF assms that] by simp
    then show ?thesis by (simp only: collect_map_Inr)
  qed
  have "map (\<lambda>j. collect (map (\<lambda>i. make_block t p (int j) (int i)) [0..<level_width t]))
          [0..<level_height t]
      = map Inr (fresh_blocks t (player_x p) (player_y p))"
    using row by (simp add: fresh_blocks_def)
  then have "collect (map (\<lambda>j. collect (map (\<lambda>i. make_block t p (int j) (int i))
      [0..<level_width t])) [0..<level_height t]) = Inr (fresh_blocks t (player_x p) (player_y p))"
    by (simp only: collect_map_Inr)
  then show ?thesis
    using r0 w by (simp add: build_map_def Let_def level_height_def)
qed


lemma fresh_blocks_grid: "is_grid (level_width t) (level_height t) (fresh_blocks t px py)"
  by (simp add: is_grid_def fresh_blocks_def list_all_length)

lemma fresh_blocks_nth:
  "j < level_height t \<Longrightarrow> i < level_width t \<Longrightarrow>
     fresh_blocks t px py ! j ! i = fresh_block t px py j i"
  by (simp add: fresh_blocks_def)

lemma choose_loop_in_maps:
  "choose_loop c ins = Return (c', ins') \<Longrightarrow> in_maps c'"
  by (induction c ins rule: choose_loop.induct) (auto split: if_splits)

lemma choose_level_Return:
  assumes "choose_level g = Return g'"
  shows "in_maps (chosen_level (player g')) \<and> game_map g' = game_map g \<and>
         hydration (player g') = hydration (player g) \<and>
         shown g' = shown g @ [Print_levels]"
proof -
  from assms obtain c ins where
    l: "choose_loop (chosen_level (player g)) (stdin g) = Return (c, ins)"
    and g': "g' = g\<lparr>shown := shown g @ [Print_levels],
                    player := (player g)\<lparr>chosen_level := c\<rparr>, stdin := ins\<rparr>"
    by (cases "choose_loop (chosen_level (player g)) (stdin g)")
      (auto simp add: choose_level_def Let_def split: prod.splits)
  from l have "in_maps c" by (rule choose_loop_in_maps)
  with g' show ?thesis by simp
qed

lemma in_maps_Some: "in_maps c \<Longrightarrow> \<exists>n t. c = Some n \<and> map_of maps n = Some t"
  by (cases c) (auto simp add: in_maps_def dest: weak_map_of_SomeI)

lemma start_level_ok:
  assumes "chosen_level (player g) = Some n" and "map_of maps n = Some t"
  shows "start_level g = Return (g\<lparr>
     player := (player g)\<lparr>player_x := player_start_x t, player_y := player_start_y t,
                          health := 100, currency := 0, inventory := []\<rparr>,
     game_map := Some \<lparr>map_name = n, win_condition = level_win_condition t,
        blocks = fresh_blocks t (player_start_x t) (player_start_y t)\<rparr>\<rparr>)"
  using assms build_map_ok [OF maps_level_ok [OF assms(2)]]
  by (simp add: start_level_def Map_init_def Let_def)

lemma board_ok_fresh:
  assumes "level_ok t" and "game_map g = Some m"
    and "blocks m = fresh_blocks t (player_start_x t) (player_start_y t)"
    and "player_x (player g) = player_start_x t" and "player_y (player g) = player_start_y t"
  shows "board_ok g"
  unfolding board_ok_def
proof (intro exI conjI allI impI)
  show "game_map g = Some m" by fact
  show "is_grid (level_width t) (level_height t) (blocks m)"
    by (simp add: assms(3) fresh_blocks_grid)
  show "on_grid (level_width t) (level_height t) (player_x (player g)) (player_y (player g))"
    using assms(1,4,5) by (simp add: level_ok_def)
next
  fix j i assume "j < level_height t" "i < level_width t"
  then have b: "blocks m ! j ! i = fresh_block t (player_start_x t) (player_start_y t) j i"
    by (simp add: assms(3) fresh_blocks_nth)
  show "has_player (blocks m ! j ! i)
      = (int i = player_x (player g) \<and> int j = player_y (player g))"
    "block_x (blocks m ! j ! i) = int i" "block_y (blocks m ! j ! i) = int j"
    by (simp_all add: b fresh_block_def assms(4,5))
qed

lemma start_level_board:
  assumes "in_maps (chosen_level (player g))" and "start_level g = Return g'"
  shows "board_ok g' \<and> hydration (player g') = hydration (player g) \<and> shown g' = shown g"
proof -
  from in_maps_Some [OF assms(1)] obtain n t
    where n: "chosen_level (player g) = Some n" and t: "map_of maps n = Some t" by blast
  from start_level_ok [OF n t] assms(2)
  have g': "g' = g\<lparr>
     player := (player g)\<lparr>player_x := player_start_x t, player_y := player_start_y t,
                          health := 100, currency := 0, inventory := []\<rparr>,
     game_map := Some \<lparr>map_name = n, win_condition = level_win_condition t,
        blocks = fresh_blocks t (player_start_x t) (player_start_y t)\<rparr>\<rparr>" by simp
  let ?m = "\<lparr>map_name = n, win_condition = level_win_condition t,
        blocks = fresh_blocks t (player_start_x t) (player_start_y t)\<rparr>"
  have gm: "game_map g' = Some ?m" by (simp add: g')
  have bl: "blocks ?m = fresh_blocks t (player_start_x t) (player_start_y t)" by simp
  have px: "player_x (player g') = player_start_x t" "player_y (player g') = player_start_y t"
    by (simp_all add: g')
  have "board_ok g'"
    using maps_level_ok [OF t] gm bl px by (rule board_ok_fresh)
  with g' show ?thesis by simp
qed


lemma board_ok_frame:
  assumes "board_ok g" and "game_map g' = game_map g"
    and "player_x (player g') = player_x (player g)"
    and "player_y (player g') = player_y (player g)"
  shows "board_ok g'"
  using assms by (simp add: board_ok_def)

lemma board_ok_move:
  assumes gm: "game_map g = Some m" and grid: "is_grid w h (blocks m)"
    and pos: "on_grid w h (player_x (player g)) (player_y (player g))"
    and fl: "\<forall>j<h. \<forall>i<w.
           has_player (blocks m ! j ! i)
             = (int i = player_x (player g) \<and> int j = player_y (player g)) \<and>
           block_x (blocks m ! j ! i) = int i \<and> block_y (blocks m ! j ! i) = int j"
    and dst: "on_grid w h nx ny"
  shows "\<exists>g2. move_to nx ny g = Return g2 \<and> board_ok g2 \<and>
           (hydration (player g2) = hydration (player g) \<or> hydration (player g2) = 100) \<and>
           (\<forall>n. Print_dehydrated n \<in> set (shown g2) \<longrightarrow> Print_dehydrated n \<in> set (shown g))"
proof -
  let ?x = "player_x (player g)" and ?y = "player_y (player g)"
  define cur where "cur = blocks m ! nat ?y ! nat ?x"
  define cur' where "cur' = cur\<lparr>tiletype := (if tiletype cur = Ice then Water else tiletype cur),
                     has_player := False\<rparr>"
  define bs1 where "bs1 = grid_set (blocks m) ?x ?y cur'"
  define d where "d = bs1 ! nat ny ! nat nx"
  define d' where "d' = d\<lparr>item := None, has_player := True\<rparr>"
  define bs2 where "bs2 = grid_set bs1 nx ny d'"
  have g1: "is_grid w h bs1" unfolding bs1_def using grid pos by (rule is_grid_set)
  have g2: "is_grid w h bs2" unfolding bs2_def using g1 dst by (rule is_grid_set)
  from pos have p: "nat ?y < h" "nat ?x < w" "0 \<le> ?x" "0 \<le> ?y"
    unfolding on_grid_def by linarith+
  from dst have q: "nat ny < h" "nat nx < w" "0 \<le> nx" "0 \<le> ny"
    unfolding on_grid_def by linarith+
  have n1: "bs1 ! j ! i = (if j = nat ?y \<and> i = nat ?x then cur' else blocks m ! j ! i)"
    if "j < h" "i < w" for j i
    unfolding bs1_def using grid pos that by (rule grid_set_nth)
  have n2: "bs2 ! j ! i = (if j = nat ny \<and> i = nat nx then d' else bs1 ! j ! i)"
    if "j < h" "i < w" for j i
    unfolding bs2_def using g1 dst that by (rule grid_set_nth)
  have dxy: "block_x d = nx \<and> block_y d = ny"
  proof -
    from fl p(1,2) have c: "block_x cur = int (nat ?x)" "block_y cur = int (nat ?y)"
      by (simp_all add: cur_def)
    from fl q(1,2) have b: "block_x (blocks m ! nat ny ! nat nx) = int (nat nx)"
      "block_y (blocks m ! nat ny ! nat nx) = int (nat ny)" by simp_all
    show ?thesis
    proof (cases "nat ny = nat ?y \<and> nat nx = nat ?x")
      case True
      with q p have e: "nx = ?x" "ny = ?y" by linarith+
      from p c have "block_x cur = ?x" "block_y cur = ?y" by simp_all
      with True q e show ?thesis by (simp add: d_def n1 cur'_def)
    next
      case False
      from q b have "block_x (blocks m ! nat ny ! nat nx) = nx"
        "block_y (blocks m ! nat ny ! nat nx) = ny" by simp_all
      with False q show ?thesis by (auto simp add: d_def n1)
    qed
  qed
  have mv: "move_to nx ny g = Return (g\<lparr>
     player := (player g)\<lparr>
        hydration := (if tiletype d = Water then 100 else hydration (player g)),
        health := (if tiletype d = Sludge then health (player g) - 8 else health (player g)),
        inventory := (case item d of None \<Rightarrow> inventory (player g)
                      | Some it \<Rightarrow> inventory (player g) @ [''key'']),
        player_x := nx, player_y := ny\<rparr>,
     shown := shown g @ [Call_leave (block_x cur) (block_y cur)]
         @ [Call_enter (block_x d) (block_y d)]
         @ (if tiletype d = Sludge then [Print_sludge (health (player g) - 8)] else [])
         @ (case item d of None \<Rightarrow> [] | Some it \<Rightarrow> [Print_pickup ''key'']),
     game_map := Some (m\<lparr>blocks := bs2\<rparr>)\<rparr>)" (is "_ = Return ?g2")
    unfolding bs2_def d'_def
    by (rule move_to_on [OF gm grid pos dst cur_def _ d_def]) (simp add: bs1_def cur'_def)
  have fl2: "has_player (bs2 ! j ! i) = (int i = nx \<and> int j = ny) \<and>
             block_x (bs2 ! j ! i) = int i \<and> block_y (bs2 ! j ! i) = int j"
    if ji: "j < h" "i < w" for j i
  proof -
    from fl ji have old: "has_player (blocks m ! j ! i) = (int i = ?x \<and> int j = ?y)"
      "block_x (blocks m ! j ! i) = int i" "block_y (blocks m ! j ! i) = int j"
      by simp_all
    show ?thesis
    proof (cases "j = nat ny \<and> i = nat nx")
      case True
      then have b: "bs2 ! j ! i = d'" using n2 [OF ji] by simp
      from True q have "int i = nx" "int j = ny" by simp_all
      with dxy show ?thesis by (simp add: b d'_def)
    next
      case False
      then have b2: "bs2 ! j ! i = bs1 ! j ! i" using n2 [OF ji] by auto
      from False q have ne: "\<not> (int i = nx \<and> int j = ny)" by linarith
      show ?thesis
      proof (cases "j = nat ?y \<and> i = nat ?x")
        case True
        then have b1: "bs1 ! j ! i = cur'" using n1 [OF ji] by simp
        from True have "cur = blocks m ! j ! i" by (simp add: cur_def)
        with old have "block_x cur = int i" "block_y cur = int j" by simp_all
        with ne show ?thesis by (simp add: b2 b1 cur'_def)
      next
        case f2: False
        then have b1: "bs1 ! j ! i = blocks m ! j ! i" using n1 [OF ji] by auto
        from f2 p have "\<not> (int i = ?x \<and> int j = ?y)" by linarith
        with old ne show ?thesis by (simp add: b2 b1)
      qed
    qed
  qed
  have bo: "board_ok ?g2"
    unfolding board_ok_def
  proof (intro exI conjI)
    show "game_map ?g2 = Some (m\<lparr>blocks := bs2\<rparr>)" by simp
    show "is_grid w h (blocks (m\<lparr>blocks := bs2\<rparr>))" using g2 by simp
    show "on_grid w h (player_x (player ?g2)) (player_y (player ?g2))" using dst by simp
    show "\<forall>j<h. \<forall>i<w.
       has_player (blocks (m\<lparr>blocks := bs2\<rparr>) ! j ! i)
         = (int i = player_x (player ?g2) \<and> int j = player_y (player ?g2)) \<and>
       block_x (blocks (m\<lparr>blocks := bs2\<rparr>) ! j ! i) = int i \<and>
       block_y (blocks (m\<lparr>blocks := bs2\<rparr>) ! j ! i) = int j"
      using fl2 by simp
  qed
  have hy: "hydration (player ?g2) = hydration (player g) \<or> hydration (player ?g2) = 100"
    by simp
  have pd: "\<forall>n. Print_dehydrated n \<in> set (shown ?g2) \<longrightarrow> Print_dehydrated n \<in> set (shown g)"
    by (simp split: option.splits)
  show ?thesis
    by (rule exI [of _ ?g2]) (intro conjI mv bo hy pd)
qed


lemma hydrated_frame:
  assumes "hydrated g" and "hydration (player g') = hydration (player g)"
    and "set (shown g') \<subseteq> set (shown g) \<union> {Print_levels, Text_win, Text_lose}"
  shows "hydrated g'"
  using assms by (auto simp add: hydrated_def)

lemma end_of_turn_inv:
  assumes "board_ok g" and "hydrated g" and "end_of_turn g = Return g'"
  shows "board_ok g' \<and> hydrated g'"
proof -
  from assms(1) obtain m where m: "game_map g = Some m" by (auto simp add: board_ok_def)
  from end_of_turn_frame [of g] assms(3) have fr: "game_map g' = game_map g"
    "player_x (player g') = player_x (player g)" "player_y (player g') = player_y (player g)"
    by simp_all
  from assms(2) have h: "hydration (player g) = 100" by (simp add: hydrated_def)
  from end_of_turn_eq [OF m assms(3)] h
  have "hydration (player g') = hydration (player g)"
    "set (shown g') \<subseteq> set (shown g) \<union> {Print_levels, Text_win, Text_lose}"
    by (auto simp add: after_checks_def)
  with assms(2) have "hydrated g'" by (rule hydrated_frame)
  with board_ok_frame [OF assms(1) fr] show ?thesis by simp
qed

lemma playing_inv:
  assumes ng: "\<not> game_over (player g)" and b: "board_ok g" and hy: "hydrated g"
    and t: "take_turn dir g = Return g'"
  shows "board_ok g' \<and> hydrated g'"
proof -
  let ?x = "player_x (player g)" and ?y = "player_y (player g)"
  let ?g0 = "turned dir g"
  from b obtain m w h where m: "game_map g = Some m" and grid: "is_grid w h (blocks m)"
    and pos: "on_grid w h ?x ?y"
    and fl: "\<forall>j<h. \<forall>i<w.
           has_player (blocks m ! j ! i) = (int i = ?x \<and> int j = ?y) \<and>
           block_x (blocks m ! j ! i) = int i \<and> block_y (blocks m ! j ! i) = int j"
    unfolding board_ok_def by blast
  obtain nx ny where c: "candidate dir ?x ?y = (nx, ny)"
    by (cases "candidate dir ?x ?y") auto
  have cur: "grid_get (blocks m) ?x ?y = Some (blocks m ! nat ?y ! nat ?x)"
    using grid pos by (rule grid_get_on)
  note tt = take_turn_playing [OF ng m cur c]
  have b0: "board_ok ?g0" by (rule board_ok_frame [OF b]) (simp_all add: turned_def)
  have h0: "hydrated ?g0" by (rule hydrated_frame [OF hy]) (auto simp add: turned_def)
  from tt t obtain ok where ok: "may_move (blocks m) (player g) nx ny = Some ok"
    by (cases "may_move (blocks m) (player g) nx ny") simp_all
  show ?thesis
  proof (cases ok)
    case False
    with tt ok t have "end_of_turn ?g0 = Return g'" by simp
    with b0 h0 show ?thesis by (rule end_of_turn_inv)
  next
    case True
    with ok may_move_off [OF grid, of nx ny "player g"] have dst: "on_grid w h nx ny" by auto
    have m0: "game_map ?g0 = Some m" using m by (simp add: turned_def)
    have pos0: "on_grid w h (player_x (player ?g0)) (player_y (player ?g0))"
      using pos by (simp add: turned_def)
    have fl0: "\<forall>j<h. \<forall>i<w.
           has_player (blocks m ! j ! i)
             = (int i = player_x (player ?g0) \<and> int j = player_y (player ?g0)) \<and>
           block_x (blocks m ! j ! i) = int i \<and> block_y (blocks m ! j ! i) = int j"
      using fl by (simp add: turned_def)
    from board_ok_move [OF m0 grid pos0 fl0 dst] obtain g2 where
      mv: "move_to nx ny ?g0 = Return g2" and b2: "board_ok g2"
      and hy2: "hydration (player g2) = hydration (player ?g0) \<or> hydration (player g2) = 100"
      and pd: "\<forall>n. Print_dehydrated n \<in> set (shown g2) \<longrightarrow> Print_dehydrated n \<in> set (shown ?g0)"
      by blast
    from h0 hy2 pd have h2: "hydrated g2" by (auto simp add: hydrated_def)
    from tt ok True t mv have "end_of_turn g2 = Return g'" by simp
    with b2 h2 show ?thesis by (rule end_of_turn_inv)
  qed
qed

lemma level_start_inv:
  assumes "choose_level g = Return g1" and "start_level g1 = Return g2"
    and "hydration (player g) = 100" and "\<forall>n. Print_dehydrated n \<notin> set (shown g)"
  shows "board_ok g2 \<and> hydrated g2"
proof -
  from choose_level_Return [OF assms(1)] have c: "in_maps (chosen_level (player g1))"
    "hydration (player g1) = hydration (player g)" "shown g1 = shown g @ [Print_levels]"
    by simp_all
  from start_level_board [OF c(1) assms(2)] have s: "board_ok g2"
    "hydration (player g2) = hydration (player g1)" "shown g2 = shown g1" by simp_all
  from s c assms(3,4) show ?thesis by (simp add: hydrated_def)
qed

lemma reset_inv:
  assumes "hydrated g" and "reset g = Return g'"
  shows "board_ok g' \<and> hydrated g'"
proof -
  let ?g0 = "g\<lparr>player := (player g)\<lparr>chosen_level := None\<rparr>\<rparr>"
  from assms(2) obtain g1 where c: "choose_level ?g0 = Return g1"
    by (cases "choose_level ?g0") (simp_all add: reset_def)
  with assms(2) obtain g2 where s: "start_level g1 = Return g2"
    and g': "g' = g2\<lparr>player := (player g2)\<lparr>game_over := False\<rparr>\<rparr>"
    by (cases "start_level g1") (auto simp add: reset_def)
  from assms(1) have "hydration (player ?g0) = 100" "\<forall>n. Print_dehydrated n \<notin> set (shown ?g0)"
    by (simp_all add: hydrated_def)
  with c s have i: "board_ok g2 \<and> hydrated g2" by (rule level_start_inv)
  then have "board_ok g'" by (rule board_ok_frame [OF conjunct1]) (simp_all add: g')
  moreover from i have "hydrated g'" by (simp add: g' hydrated_def)
  ultimately show ?thesis by simp
qed

lemma setup_inv:
  assumes "\<forall>n. Print_dehydrated n \<notin> set (shown g)" and "setup_program g = Return g'"
  shows "board_ok g' \<and> hydrated g'"
proof -
  let ?g0 = "g\<lparr>player := new_Player, game_map := None\<rparr>"
  from assms(2) obtain g1 where c: "choose_level ?g0 = Return g1" and s: "start_level g1 = Return g'"
    by (cases "choose_level ?g0") (simp_all add: setup_program_def)
  from assms(1) have "hydration (player ?g0) = 100" "\<forall>n. Print_dehydrated n \<notin> set (shown ?g0)"
    by (simp_all add: new_Player_def)
  with c s show ?thesis by (rule level_start_inv)
qed

lemma take_turn_inv:
  assumes "board_ok g" and "hydrated g" and "take_turn dir g = Return g'"
  shows "board_ok g' \<and> hydrated g'"
proof (cases "game_over (player g)")
  case True
  with assms(3) have "reset g = Return g'" by (simp add: take_turn_def)
  with assms(2) show ?thesis by (rule reset_inv)
next
  case False
  then show ?thesis using assms by (rule playing_inv)
qed

lemma if_chain:
  "(if a then A else if b then B else if c then C else if d then D else if e then E else F)
     \<in> {A, B, C, D, E, F}"
  by simp

lemma keyPressed_cases:
  "(\<exists>d. keyPressed k g = take_turn d g) \<or> keyPressed k g = setup_program g \<or>
   keyPressed k g = Return g"
proof -
  have "keyPressed k g \<in> {take_turn ''up'' g, take_turn ''left'' g, take_turn ''down'' g,
      take_turn ''right'' g, setup_program g, Return g}"
    unfolding keyPressed_def by (rule if_chain)
  then show ?thesis by blast
qed

lemma reachable_inv: "reachable g \<Longrightarrow> board_ok g \<and> hydrated g"
proof (induction rule: reachable.induct)
  case (start g0 g)
  then show ?case by (intro setup_inv [of g0 g]) simp_all
next
  case (key g k g')
  then have i: "board_ok g" "hydrated g" by simp_all
  from i(2) have np: "\<forall>n. Print_dehydrated n \<notin> set (shown g)" by (simp add: hydrated_def)
  from key(2) keyPressed_cases [of k g]
  consider d where "take_turn d g = Return g'" | "setup_program g = Return g'" | "g' = g"
    by auto
  then show ?case
  proof cases
    case 1
    with i show ?thesis by (rule take_turn_inv)
  next
    case 2
    with np show ?thesis by (rule setup_inv)
  next
    case 3
    with i show ?thesis by simp
  qed
next
  case (typed g ls)
  then have i: "board_ok g" "hydrated g" by simp_all
  have "board_ok (g\<lparr>stdin := stdin g @ ls\<rparr>)" by (rule board_ok_frame [OF i(1)]) simp_all
  moreover have "hydrated (g\<lparr>stdin := stdin g @ ls\<rparr>)" using i(2) by (simp add: hydrated_def)
  ultimately show ?case by simp
qed


lemma filter_single:
  "k < length xs \<Longrightarrow> \<forall>i<length xs. P (xs ! i) = (i = k) \<Longrightarrow> filter P xs = [xs ! k]"
proof (induction xs arbitrary: k)
  case Nil
  then show ?case by simp
next
  case (Cons x xs)
  show ?case
  proof (cases k)
    case 0
    from Cons.prems(2) have "P x" using 0 by auto
    moreover have "\<forall>y\<in>set xs. \<not> P y"
    proof
      fix y assume "y \<in> set xs"
      then obtain i where "i < length xs" "y = xs ! i" by (auto simp add: in_set_conv_nth)
      with Cons.prems(2) [rule_format, of "Suc i"] 0 show "\<not> P y" by simp
    qed
    ultimately show ?thesis using 0 by (simp add: filter_empty_conv)
  next
    case (Suc k')
    from Cons.prems(2) [rule_format, of 0] Suc have nx: "\<not> P x" by simp
    have "\<forall>i<length xs. P (xs ! i) = (i = k')"
    proof (intro allI impI)
      fix i assume "i < length xs"
      with Cons.prems(2) [rule_format, of "Suc i"] Suc show "P (xs ! i) = (i = k')" by simp
    qed
    moreover from Cons.prems(1) Suc have "k' < length xs" by simp
    ultimately have "filter P xs = [xs ! k']" by (rule Cons.IH [rotated])
    with nx Suc show ?thesis by simp
  qed
qed

lemma filter_none: "\<forall>i<length xs. \<not> P (xs ! i) \<Longrightarrow> filter P xs = []"
  by (auto simp add: filter_empty_conv in_set_conv_nth)

lemma concat_single:
  "k < length yss \<Longrightarrow> \<forall>j<length yss. j \<noteq> k \<longrightarrow> yss ! j = [] \<Longrightarrow> concat yss = yss ! k"
proof (induction yss arbitrary: k)
  case Nil
  then show ?case by simp
next
  case (Cons ys yss)
  show ?case
  proof (cases k)
    case 0
    have "\<forall>zs\<in>set yss. zs = []"
    proof
      fix zs assume "zs \<in> set yss"
      then obtain j where "j < length yss" "zs = yss ! j" by (auto simp add: in_set_conv_nth)
      with Cons.prems(2) [rule_format, of "Suc j"] 0 show "zs = []" by simp
    qed
    then have "concat yss = []" by simp
    with 0 show ?thesis by simp
  next
    case (Suc k')
    from Cons.prems(2) [rule_format, of 0] Suc have e: "ys = []" by simp
    have "\<forall>j<length yss. j \<noteq> k' \<longrightarrow> yss ! j = []"
    proof (intro allI impI)
      fix j assume "j < length yss" "j \<noteq> k'"
      with Cons.prems(2) [rule_format, of "Suc j"] Suc show "yss ! j = []" by simp
    qed
    moreover from Cons.prems(1) Suc have "k' < length yss" by simp
    ultimately have "concat yss = yss ! k'" by (rule Cons.IH [rotated])
    with e Suc show ?thesis by simp
  qed
qed

lemma board_ok_flagged:
  assumes "board_ok g"
  shows "\<exists>m. game_map g = Some m \<and>
           flagged (blocks m) = [(player_x (player g), player_y (player g))] \<and>
           map_option has_player (grid_get (blocks m) (player_x (player g)) (player_y (player g)))
             = Some True"
proof -
  let ?x = "player_x (player g)" and ?y = "player_y (player g)"
  from assms obtain m w h where m: "game_map g = Some m" and grid: "is_grid w h (blocks m)"
    and pos: "on_grid w h ?x ?y"
    and fl: "\<forall>j<h. \<forall>i<w.
           has_player (blocks m ! j ! i) = (int i = ?x \<and> int j = ?y) \<and>
           block_x (blocks m ! j ! i) = int i \<and> block_y (blocks m ! j ! i) = int j"
    unfolding board_ok_def by blast
  from pos have p: "nat ?y < h" "nat ?x < w" "int (nat ?x) = ?x" "int (nat ?y) = ?y"
    unfolding on_grid_def by linarith+
  from grid have len: "length (blocks m) = h" by (simp add: is_grid_def)
  have row: "length (blocks m ! j) = w" if "j < h" for j using grid that by (rule is_grid_row)
  let ?b = "blocks m ! nat ?y ! nat ?x"
  have r1: "filter has_player (blocks m ! nat ?y) = [?b]"
  proof (rule filter_single)
    show "nat ?x < length (blocks m ! nat ?y)" using p row by simp
    show "\<forall>i<length (blocks m ! nat ?y). has_player (blocks m ! nat ?y ! i) = (i = nat ?x)"
    proof (intro allI impI)
      fix i assume "i < length (blocks m ! nat ?y)"
      with p row have "i < w" by simp
      with fl p(1) have "has_player (blocks m ! nat ?y ! i) = (int i = ?x \<and> int (nat ?y) = ?y)"
        by simp
      with p show "has_player (blocks m ! nat ?y ! i) = (i = nat ?x)" by auto
    qed
  qed
  have r0: "filter has_player (blocks m ! j) = []" if "j < h" "j \<noteq> nat ?y" for j
  proof (rule filter_none, intro allI impI)
    fix i assume "i < length (blocks m ! j)"
    with that row have "i < w" by simp
    with fl that(1) have "has_player (blocks m ! j ! i) = (int i = ?x \<and> int j = ?y)" by simp
    moreover from that(2) p have "int j \<noteq> ?y" by linarith
    ultimately show "\<not> has_player (blocks m ! j ! i)" by simp
  qed
  have "concat (map (filter has_player) (blocks m)) = map (filter has_player) (blocks m) ! nat ?y"
  proof (rule concat_single)
    show "nat ?y < length (map (filter has_player) (blocks m))" using p len by simp
    show "\<forall>j<length (map (filter has_player) (blocks m)).
        j \<noteq> nat ?y \<longrightarrow> map (filter has_player) (blocks m) ! j = []"
      using r0 len by simp
  qed
  with r1 p len have "filter has_player (concat (blocks m)) = [?b]"
    by (simp add: filter_concat)
  moreover from fl p have "block_x ?b = ?x" "block_y ?b = ?y" "has_player ?b" by simp_all
  moreover have "grid_get (blocks m) ?x ?y = Some ?b" using grid pos by (rule grid_get_on)
  ultimately show ?thesis using m by (simp add: flagged_def)
qed

lemma reachable_run: "reachable g \<Longrightarrow> run ks g = Return g' \<Longrightarrow> reachable g'"
proof (induction ks arbitrary: g)
  case Nil
  then show ?case by simp
next
  case (Cons k ks)
  from Cons.prems(2) obtain g1 where k: "keyPressed k g = Return g1" and r: "run ks g1 = Return g'"
    by (cases "keyPressed k g") simp_all
  from Cons.prems(1) k have "reachable g1" by (rule reachable.key)
  then show ?case using r by (rule Cons.IH)
qed

lemma reachable_started:
  assumes "returns (and_then (setup_program (start_state ls)) (run ks))"
  shows "reachable (state_of (and_then (setup_program (start_state ls)) (run ks)))"
proof -
  from assms obtain g where s: "setup_program (start_state ls) = Return g"
    by (cases "setup_program (start_state ls)") (simp_all add: returns_def)
  have "shown (start_state ls) = []" by (simp add: start_state_def)
  then have r: "reachable g" using s by (rule reachable.start)
  from assms s have "run ks g = Return (state_of (run ks g))" by (simp add: returns_eq)
  with r have "reachable (state_of (run ks g))" by (rule reachable_run)
  with s show ?thesis by simp
qed

lemma choose_loop_done: "in_maps c \<Longrightarrow> choose_loop c ins = Return (c, ins)"
  by (cases ins) simp_all

lemma choose_loop_find:
  "\<not> in_maps c \<Longrightarrow> find (\<lambda>l. in_maps (Some l)) ins = Some n \<Longrightarrow>
     \<exists>rest. choose_loop c ins = Return (Some n, rest)"
proof (induction ins arbitrary: c)
  case Nil
  then show ?case by simp
next
  case (Cons l ls)
  show ?case
  proof (cases "in_maps (Some l)")
    case True
    with Cons.prems have "n = l" by simp
    with True Cons.prems(1) show ?thesis by (simp add: choose_loop_done)
  next
    case False
    with Cons.prems have "find (\<lambda>l. in_maps (Some l)) ls = Some n" by simp
    with False have "\<exists>rest. choose_loop (Some l) ls = Return (Some n, rest)" by (rule Cons.IH)
    with Cons.prems(1) show ?thesis by simp
  qed
qed

text \<open>
  C9. In every state of a run (after \<^verbatim>\<open>setup\<close> has built the grid, and after every key
  press that returns) exactly one block of the grid has its \<^verbatim>\<open>has_player\<close> flag set, the
  coordinates that block carries are the player's \<^verbatim>\<open>x\<close> and \<^verbatim>\<open>y\<close>, and it is the block
  stored at that position of the grid.
\<close>

theorem one_flag_at_player:
  "reachable g \<Longrightarrow>
     \<exists>m. game_map g = Some m \<and>
       flagged (blocks m) = [(player_x (player g), player_y (player g))] \<and>
       map_option has_player (grid_get (blocks m) (player_x (player g)) (player_y (player g)))
         = Some True"
proof -
  assume "reachable g"
  then have "board_ok g \<and> hydrated g" by (rule reachable_inv)
  then have "board_ok g" ..
  then show ?thesis by (rule board_ok_flagged)
qed

theorem one_flag_at_player_witness:
  "reachable (state_of (and_then (setup_program (start_state [''demo''])) (run [''s'']))) \<and>
   (\<exists>m. game_map (state_of (and_then (setup_program (start_state [''demo''])) (run [''s''])))
          = Some m \<and> flagged (blocks m) = [(2, 1)])"
proof -
  let ?g = "state_of (and_then (setup_program (start_state [''demo''])) (run [''s'']))"
  have "returns (and_then (setup_program (start_state [''demo''])) (run [''s'']))" by code_simp
  then have r: "reachable ?g" by (rule reachable_started)
  have x: "player_x (player ?g) = 2" "player_y (player ?g) = 1" by code_simp+
  from one_flag_at_player [OF r] r show ?thesis unfolding x by blast
qed

text \<open>
  C10. In every state of a run on the levels of the catalog the player's hydration is 100,
  and the dehydration branch of line 302 has never run (its line was never printed).
\<close>

theorem hydration_always_full:
  "reachable g \<Longrightarrow>
     hydration (player g) = 100 \<and> (\<forall>n. Print_dehydrated n \<notin> set (shown g))"
proof -
  assume "reachable g"
  then have "board_ok g \<and> hydrated g" by (rule reachable_inv)
  then have "hydrated g" ..
  then show ?thesis by (simp add: hydrated_def)
qed


theorem hydration_always_full_witness:
  "reachable lost_game \<and> health (player lost_game) = - 4 \<and>
   hydration (player lost_game) = 100 \<and> (\<forall>n. Print_dehydrated n \<notin> set (shown lost_game))"
proof -
  have "returns (and_then (setup_program (start_state [''sludge_lavafields'', ''demo'']))
     (run [''a'', ''a'', ''d'', ''a'', ''d'', ''a'', ''d'', ''a'', ''d'', ''a'', ''d'', ''a'', ''d'']))"
    by code_simp
  then have r: "reachable lost_game" unfolding lost_game_def by (rule reachable_started)
  have h: "health (player lost_game) = - 4" by code_simp
  from hydration_always_full [OF r] r h show ?thesis by simp
qed

text \<open>
  C4. In a state of a run where the game is over (lost or won), with the name of a level
  among the lines still to be read, the next turn returns without any call of \<^verbatim>\<open>leave\<close> or
  \<^verbatim>\<open>enter\<close>: it prints the level list, takes the first valid name \<open>n\<close>, and leaves the
  player with health 100, hydration 100, an empty inventory and the start position of that
  level, the game no longer over, on the grid built from the template of the level alone.
\<close>

theorem reset_after_game_over:
  assumes "reachable g" and "game_over (player g)"
    and "find (\<lambda>l. in_maps (Some l)) (stdin g) = Some n"
  shows "\<exists>g' t. take_turn dir g = Return g' \<and> map_of maps n = Some t \<and>
     chosen_level (player g') = Some n \<and>
     health (player g') = 100 \<and> hydration (player g') = 100 \<and> inventory (player g') = [] \<and>
     player_x (player g') = player_start_x t \<and> player_y (player g') = player_start_y t \<and>
     \<not> game_over (player g') \<and>
     map_option blocks (game_map g')
       = Some (fresh_blocks t (player_start_x t) (player_start_y t)) \<and>
     shown g' = shown g @ [Print_levels]"
proof -
  let ?g0 = "g\<lparr>player := (player g)\<lparr>chosen_level := None\<rparr>\<rparr>"
  have "\<not> in_maps None" by (simp add: in_maps_def)
  from choose_loop_find [OF this assms(3)] obtain rest
    where l: "choose_loop None (stdin g) = Return (Some n, rest)" by blast
  let ?g1 = "g\<lparr>shown := shown g @ [Print_levels],
                player := (player g)\<lparr>chosen_level := Some n\<rparr>, stdin := rest\<rparr>"
  have c: "choose_level ?g0 = Return ?g1"
    using l by (simp add: choose_level_def Let_def)
  from l have "in_maps (Some n)" by (rule choose_loop_in_maps)
  then obtain t where t: "map_of maps n = Some t" by (auto dest: in_maps_Some)
  have cl: "chosen_level (player ?g1) = Some n" by simp
  note s = start_level_ok [OF cl t]
  from reachable_inv [OF assms(1)] have h: "hydration (player g) = 100"
    by (simp add: hydrated_def)
  have "take_turn dir g = reset g" using assms(2) by (simp add: take_turn_def)
  also have "reset g = and_then (start_level ?g1)
      (\<lambda>g2. Return (g2\<lparr>player := (player g2)\<lparr>game_over := False\<rparr>\<rparr>))"
    by (simp add: reset_def c)
  finally show ?thesis using t h by (simp add: s)
qed

theorem reset_after_game_over_witness:
  "reachable lost_game \<and> game_over (player lost_game) \<and>
   find (\<lambda>l. in_maps (Some l)) (stdin lost_game) = Some ''demo'' \<and>
   health (player lost_game) = - 4 \<and>
   (\<exists>g'. take_turn ''right'' lost_game = Return g' \<and>
     health (player g') = 100 \<and> hydration (player g') = 100 \<and> inventory (player g') = [] \<and>
     player_x (player g') = 2 \<and> player_y (player g') = 0 \<and> \<not> game_over (player g') \<and>
     map_option blocks (game_map g') = Some (fresh_blocks demo 2 0)) \<and>
   reachable won_game \<and> game_over (player won_game) \<and>
   find (\<lambda>l. in_maps (Some l)) (stdin won_game) = Some ''demo'' \<and>
   inventory (player won_game) = [''key'', ''key'', ''key''] \<and>
   tile_at won_game 2 0 = Some Water \<and>
   (\<exists>g'. take_turn ''right'' won_game = Return g' \<and> inventory (player g') = [] \<and>
     player_x (player g') = 2 \<and> player_y (player g') = 0 \<and>
     tile_at g' 2 0 = Some Ice)"
proof -
  have d: "map_of maps ''demo'' = Some t \<longleftrightarrow> t = demo" for t
    by (auto simp add: maps_def)
  have sx: "player_start_x demo = 2" "player_start_y demo = 0" by (simp_all add: demo_def)
  have "returns (and_then (setup_program (start_state [''sludge_lavafields'', ''demo'']))
     (run [''a'', ''a'', ''d'', ''a'', ''d'', ''a'', ''d'', ''a'', ''d'', ''a'', ''d'', ''a'', ''d'']))"
    by code_simp
  then have r: "reachable lost_game" unfolding lost_game_def by (rule reachable_started)
  have o: "game_over (player lost_game)" by code_simp
  have f: "find (\<lambda>l. in_maps (Some l)) (stdin lost_game) = Some ''demo''" by code_simp
  have h: "health (player lost_game) = - 4" by code_simp
  from reset_after_game_over [OF r o f, of "''right''"]
  have a: "\<exists>g'. take_turn ''right'' lost_game = Return g' \<and>
     health (player g') = 100 \<and> hydration (player g') = 100 \<and> inventory (player g') = [] \<and>
     player_x (player g') = 2 \<and> player_y (player g') = 0 \<and> \<not> game_over (player g') \<and>
     map_option blocks (game_map g') = Some (fresh_blocks demo 2 0)"
    unfolding d by (auto simp add: sx)
  have "returns (and_then (setup_program (start_state [''demo'', ''demo'']))
     (run [''s'', ''a'', ''s'', ''a'', ''s'', ''d'', ''d'', ''d'', ''d'', ''w'', ''d'',
           ''s'', ''s'', ''s'', ''a'']))"
    by code_simp
  then have r2: "reachable won_game" unfolding won_game_def by (rule reachable_started)
  have o2: "game_over (player won_game)" by code_simp
  have f2: "find (\<lambda>l. in_maps (Some l)) (stdin won_game) = Some ''demo''" by code_simp
  have i2: "inventory (player won_game) = [''key'', ''key'', ''key'']" by code_simp
  have t2: "tile_at won_game 2 0 = Some Water" by code_simp
  have fr: "map_option tiletype (grid_get (fresh_blocks demo 2 0) 2 0) = Some Ice" by code_simp
  from reset_after_game_over [OF r2 o2 f2, of "''right''"]
  obtain g' where g': "take_turn ''right'' won_game = Return g'" "inventory (player g') = []"
    "player_x (player g') = 2" "player_y (player g') = 0"
    "map_option blocks (game_map g') = Some (fresh_blocks demo 2 0)"
    unfolding d by (auto simp add: sx)
  from g'(5) fr have "tile_at g' 2 0 = Some Ice"
    by (cases "game_map g'") (simp_all add: tile_at_def)
  with g' have b: "\<exists>g'. take_turn ''right'' won_game = Return g' \<and> inventory (player g') = [] \<and>
     player_x (player g') = 2 \<and> player_y (player g') = 0 \<and> tile_at g' 2 0 = Some Ice"
    by blast
  from r o f h a r2 o2 f2 i2 t2 b show ?thesis by (intro conjI)
qed


section \<open>The end of a turn, and a token that is no direction\<close>

lemma end_of_turn_result:
  assumes "game_map g1 = Some m"
  shows "end_of_turn g1 = Return (g1\<lparr>
     player := (after_checks (player g1))\<lparr>game_over :=
        (game_over (player g1) \<or> health (player g1) \<le> 0 \<or>
         win_condition m (after_checks (player g1)))\<rparr>,
     shown := shown g1
        @ (if health (player g1) \<le> 0 then [Text_lose] else [])
        @ (if hydration (player g1) < 10
           then [Print_dehydrated (health (player g1) - 2)] else [])
        @ (if win_condition m (after_checks (player g1)) then [Text_win] else [])\<rparr>)"
proof -
  have p: "player (check_hydration (check_health g1)) = after_checks (player g1)"
    by (simp add: check_hydration_def check_health_def lose_def after_checks_def)
  have e: "end_of_turn g1 = Return (if win_condition m (after_checks (player g1))
      then win (check_hydration (check_health g1)) else check_hydration (check_health g1))"
    by (simp add: end_of_turn_def check_win_def assms p)
  show ?thesis
    unfolding e
    by (simp add: win_def check_hydration_def check_health_def lose_def after_checks_def)
qed


lemma grid_set_twice:
  assumes "is_grid w h bs" and "on_grid w h bx by"
  shows "grid_set (grid_set bs bx by a) bx by b = grid_set bs bx by b"
proof -
  from assms(2) have lt: "nat by < h" unfolding on_grid_def by linarith
  from assms(1) have len: "length bs = h" by (simp add: is_grid_def)
  have g1: "is_grid w h (grid_set bs bx by a)" using assms by (rule is_grid_set)
  show ?thesis
    unfolding grid_set_on [OF g1 assms(2)]
    unfolding grid_set_on [OF assms]
    using lt len by simp
qed









text \<open>
  C2, as the code has it. A direction token outside up, down, left and right leaves the
  candidate destination at the player's own position, so the position does not change. The
  turn is not rejected. On a grid, when the own block passes the test of line 293 and can be
  entered, \<^verbatim>\<open>leave\<close> and then \<^verbatim>\<open>enter\<close> are called on it, with their effects: an Ice tile
  becomes Water, hydration is set to 100 on Ice or Water, health drops by 8 on Sludge, a key
  on the block is picked up and the item removed; otherwise no call is made and the
  movement phase changes only the recorded direction. In both cases the checks of lines 300
  to 306 then run. The state returned is given in full.
\<close>

theorem invalid_direction_own_block:
  assumes "dir \<notin> {''up'', ''down'', ''left'', ''right''}" and "\<not> game_over (player g)"
  shows "player_x (player (state_of (take_turn dir g))) = player_x (player g) \<and>
         player_y (player (state_of (take_turn dir g))) = player_y (player g) \<and>
         (\<forall>m w h cur enters p1 out1 bs1.
            game_map g = Some m \<and> is_grid w h (blocks m) \<and>
            on_grid w h (player_x (player g)) (player_y (player g)) \<and>
            cur = blocks m ! nat (player_y (player g)) ! nat (player_x (player g)) \<and>
            enters = (player_x (player g) < int h \<and> player_y (player g) < int w \<and>
                      Block_can_enter cur (player g)) \<and>
            p1 = (if enters
                  then (player g)\<lparr>
                     hydration := (if tiletype cur = Ice \<or> tiletype cur = Water then 100
                                   else hydration (player g)),
                     health := (if tiletype cur = Sludge then health (player g) - 8
                                else health (player g)),
                     inventory := (case item cur of None \<Rightarrow> inventory (player g)
                                   | Some it \<Rightarrow> inventory (player g) @ [''key'']),
                     move_direction := Some dir\<rparr>
                  else (player g)\<lparr>move_direction := Some dir\<rparr>) \<and>
            out1 = (if enters
                    then shown g
                      @ [Call_leave (block_x cur) (block_y cur),
                         Call_enter (block_x cur) (block_y cur)]
                      @ (if tiletype cur = Sludge then [Print_sludge (health (player g) - 8)]
                         else [])
                      @ (case item cur of None \<Rightarrow> [] | Some it \<Rightarrow> [Print_pickup ''key''])
                    else shown g) \<and>
            bs1 = (if enters
                   then grid_set (blocks m) (player_x (player g)) (player_y (player g))
                          (cur\<lparr>tiletype := (if tiletype cur = Ice then Water else tiletype cur),
                               item := None, has_player := True\<rparr>)
                   else blocks m) \<longrightarrow>
            take_turn dir g = Return (g\<lparr>
               player := p1\<lparr>
                 health := (if hydration p1 < 10 then health p1 - 2 else health p1),
                 game_over := (health p1 \<le> 0 \<or> win_condition m (after_checks p1))\<rparr>,
               shown := out1
                 @ (if health p1 \<le> 0 then [Text_lose] else [])
                 @ (if hydration p1 < 10 then [Print_dehydrated (health p1 - 2)] else [])
                 @ (if win_condition m (after_checks p1) then [Text_win] else []),
               game_map := Some (m\<lparr>blocks := bs1\<rparr>)\<rparr>))"
proof -
  let ?x = "player_x (player g)" and ?y = "player_y (player g)"
  have c: "candidate dir ?x ?y = (?x, ?y)"
    using assms(1) by (simp add: candidate_def)
  have pos: "player_x (player (state_of (take_turn dir g))) = ?x \<and>
         player_y (player (state_of (take_turn dir g))) = ?y"
  proof (cases "game_map g")
    case None
    with assms(2) show ?thesis by (simp add: take_turn_def Let_def)
  next
    case (Some m)
    show ?thesis
    proof (cases "grid_get (blocks m) ?x ?y")
      case None
      with Some assms(2) show ?thesis by (simp add: take_turn_def Let_def)
    next
      case cur: (Some cur)
      note t = take_turn_playing [OF assms(2) Some cur c]
      show ?thesis
      proof (cases "may_move (blocks m) (player g) ?x ?y")
        case None
        with t show ?thesis by (simp add: turned_def)
      next
        case ok: (Some ok)
        show ?thesis
        proof (cases ok)
          case True
          with t ok move_to_pos [of ?x ?y "turned dir g"]
          show ?thesis by (simp add: turned_def)
        next
          case False
          with t ok end_of_turn_frame [of "turned dir g"] show ?thesis by (simp add: turned_def)
        qed
      qed
    qed
  qed
  have own: "take_turn dir g = Return (g\<lparr>
               player := p1\<lparr>
                 health := (if hydration p1 < 10 then health p1 - 2 else health p1),
                 game_over := (health p1 \<le> 0 \<or> win_condition m (after_checks p1))\<rparr>,
               shown := out1
                 @ (if health p1 \<le> 0 then [Text_lose] else [])
                 @ (if hydration p1 < 10 then [Print_dehydrated (health p1 - 2)] else [])
                 @ (if win_condition m (after_checks p1) then [Text_win] else []),
               game_map := Some (m\<lparr>blocks := bs1\<rparr>)\<rparr>)"
    if m: "game_map g = Some m" and grid: "is_grid w h (blocks m)" and on: "on_grid w h ?x ?y"
      and cur: "cur = blocks m ! nat ?y ! nat ?x"
      and en: "enters = (?x < int h \<and> ?y < int w \<and> Block_can_enter cur (player g))"
      and p1: "p1 = (if enters
                  then (player g)\<lparr>
                     hydration := (if tiletype cur = Ice \<or> tiletype cur = Water then 100
                                   else hydration (player g)),
                     health := (if tiletype cur = Sludge then health (player g) - 8
                                else health (player g)),
                     inventory := (case item cur of None \<Rightarrow> inventory (player g)
                                   | Some it \<Rightarrow> inventory (player g) @ [''key'']),
                     move_direction := Some dir\<rparr>
                  else (player g)\<lparr>move_direction := Some dir\<rparr>)"
      and out1: "out1 = (if enters
                    then shown g
                      @ [Call_leave (block_x cur) (block_y cur),
                         Call_enter (block_x cur) (block_y cur)]
                      @ (if tiletype cur = Sludge then [Print_sludge (health (player g) - 8)]
                         else [])
                      @ (case item cur of None \<Rightarrow> [] | Some it \<Rightarrow> [Print_pickup ''key''])
                    else shown g)"
      and bs1: "bs1 = (if enters
                   then grid_set (blocks m) ?x ?y
                          (cur\<lparr>tiletype := (if tiletype cur = Ice then Water else tiletype cur),
                               item := None, has_player := True\<rparr>)
                   else blocks m)"
    for m w h cur enters p1 out1 bs1
  proof -
    have get: "grid_get (blocks m) ?x ?y = Some cur"
      using grid on by (simp add: grid_get_on cur)
    note t = take_turn_playing [OF assms(2) m get c]
    have mm: "may_move (blocks m) (player g) ?x ?y = Some enters"
      using grid on by (simp add: may_move_on cur en)
    have ng: "\<not> game_over p1" using assms(2) by (simp add: p1)
    have fin: "end_of_turn g1 = Return (g\<lparr>
               player := p1\<lparr>
                 health := (if hydration p1 < 10 then health p1 - 2 else health p1),
                 game_over := (health p1 \<le> 0 \<or> win_condition m (after_checks p1))\<rparr>,
               shown := out1
                 @ (if health p1 \<le> 0 then [Text_lose] else [])
                 @ (if hydration p1 < 10 then [Print_dehydrated (health p1 - 2)] else [])
                 @ (if win_condition m (after_checks p1) then [Text_win] else []),
               game_map := Some (m\<lparr>blocks := bs1\<rparr>)\<rparr>)"
      if g1: "g1 = g\<lparr>player := p1, shown := out1, game_map := Some (m\<lparr>blocks := bs1\<rparr>)\<rparr>"
      for g1
    proof -
      have gm: "game_map g1 = Some (m\<lparr>blocks := bs1\<rparr>)" by (simp add: g1)
      have ac: "(after_checks p1)\<lparr>game_over :=
            (game_over p1 \<or> health p1 \<le> 0 \<or> win_condition m (after_checks p1))\<rparr>
          = p1\<lparr>health := (if hydration p1 < 10 then health p1 - 2 else health p1),
               game_over := (health p1 \<le> 0 \<or> win_condition m (after_checks p1))\<rparr>"
        using ng by (simp add: after_checks_def)
      show ?thesis
        unfolding end_of_turn_result [OF gm]
        using ac by (simp add: g1)
    qed
    show ?thesis
    proof (cases enters)
      case False
      with t mm have e: "take_turn dir g = end_of_turn (turned dir g)" by simp
      have "turned dir g = g\<lparr>player := p1, shown := out1, game_map := Some (m\<lparr>blocks := bs1\<rparr>)\<rparr>"
        using False m by (simp add: turned_def p1 out1 bs1)
      then show ?thesis unfolding e by (rule fin)
    next
      case True
      with t mm have e: "take_turn dir g = and_then (move_to ?x ?y (turned dir g)) end_of_turn"
        by simp
      let ?cur' = "cur\<lparr>tiletype := (if tiletype cur = Ice then Water else tiletype cur),
                       has_player := False\<rparr>"
      let ?bsl = "grid_set (blocks m) ?x ?y ?cur'"
      have d: "?cur' = ?bsl ! nat ?y ! nat ?x"
      proof -
        from on have "nat ?y < h" "nat ?x < w" unfolding on_grid_def by linarith+
        then show ?thesis using grid_set_nth [OF grid on, of "nat ?y" "nat ?x" ?cur'] by simp
      qed
      have tm: "game_map (turned dir g) = Some m" using m by (simp add: turned_def)
      have ton: "on_grid w h (player_x (player (turned dir g))) (player_y (player (turned dir g)))"
        using on by (simp add: turned_def)
      have tcur: "cur = blocks m ! nat (player_y (player (turned dir g)))
                          ! nat (player_x (player (turned dir g)))"
        using cur by (simp add: turned_def)
      have tbs: "?bsl = grid_set (blocks m) (player_x (player (turned dir g)))
                  (player_y (player (turned dir g))) ?cur'"
        by (simp add: turned_def)
      have tw: "grid_set ?bsl ?x ?y (?cur'\<lparr>item := None, has_player := True\<rparr>)
          = grid_set (blocks m) ?x ?y (?cur'\<lparr>item := None, has_player := True\<rparr>)"
        using grid on by (rule grid_set_twice)
      have wt: "(tiletype ?cur' = Water) = (tiletype cur = Ice \<or> tiletype cur = Water)"
        "(tiletype ?cur' = Sludge) = (tiletype cur = Sludge)"
        by auto
      have mv: "move_to ?x ?y (turned dir g)
          = Return (g\<lparr>player := p1, shown := out1, game_map := Some (m\<lparr>blocks := bs1\<rparr>)\<rparr>)"
        unfolding move_to_on [OF tm grid ton on tcur tbs d] tw
        using True wt by (cases "item cur") (simp_all add: turned_def p1 out1 bs1)
      show ?thesis unfolding e mv and_then_simps by (rule fin) simp
    qed
  qed
  from pos own show ?thesis by blast
qed


theorem invalid_direction_counterexample:
  "''jump'' \<notin> {''up'', ''down'', ''left'', ''right''} \<and>
   \<not> game_over (player demo_game) \<and>
   tile_at demo_game 2 0 = Some Ice \<and>
   returns (take_turn ''jump'' demo_game) \<and>
   tile_at (state_of (take_turn ''jump'' demo_game)) 2 0 = Some Water \<and>
   calls (shown demo_game) = [] \<and>
   calls (shown (state_of (take_turn ''jump'' demo_game))) = [Call_leave 2 0, Call_enter 2 0]"
  by code_simp

theorem invalid_direction_own_block_witness:
  "''jump'' \<notin> {''up'', ''down'', ''left'', ''right''} \<and>
   \<not> game_over (player sludge_game) \<and>
   player_x (player sludge_game) = 1 \<and> player_y (player sludge_game) = 1 \<and>
   tile_at sludge_game 1 1 = Some Sludge \<and> health (player sludge_game) = 92 \<and>
   (\<exists>g'. take_turn ''jump'' sludge_game = Return g' \<and>
      player_x (player g') = 1 \<and> player_y (player g') = 1 \<and>
      health (player g') = 84 \<and> hydration (player g') = 100 \<and>
      inventory (player g') = [] \<and>
      calls (shown g') = calls (shown sludge_game) @ [Call_leave 1 1, Call_enter 1 1] \<and>
      Print_sludge 84 \<in> set (shown g') \<and>
      tile_at g' 1 1 = Some Sludge)"
proof -
  let ?g = sludge_game
  have a: "''jump'' \<notin> {''up'', ''down'', ''left'', ''right''}" by simp
  have b: "\<not> game_over (player ?g)" by code_simp
  have x: "player_x (player ?g) = 1" "player_y (player ?g) = 1" by code_simp+
  have p: "health (player ?g) = 92" "hydration (player ?g) = 100" "inventory (player ?g) = []"
    by code_simp+
  have t: "tile_at ?g 1 1 = Some Sludge" by code_simp
  have "game_map ?g \<noteq> None" by code_simp
  then obtain m where m: "game_map ?g = Some m" by blast
  have "is_grid 7 7 (blocks (the (game_map ?g)))" by code_simp
  with m have grid: "is_grid 7 7 (blocks m)" by simp
  have on1: "on_grid 7 7 1 1" by (simp add: on_grid_def)
  then have on: "on_grid 7 7 (player_x (player ?g)) (player_y (player ?g))" by (simp add: x)
  have "tiletype (blocks (the (game_map ?g)) ! 1 ! 1) = Sludge"
    "item (blocks (the (game_map ?g)) ! 1 ! 1) = None"
    "block_x (blocks (the (game_map ?g)) ! 1 ! 1) = 1"
    "block_y (blocks (the (game_map ?g)) ! 1 ! 1) = 1"
    by code_simp+
  with m have cur: "tiletype (blocks m ! 1 ! 1) = Sludge" "item (blocks m ! 1 ! 1) = None"
    "block_x (blocks m ! 1 ! 1) = 1" "block_y (blocks m ! 1 ! 1) = 1" by simp_all
  then have ce: "Block_can_enter (blocks m ! 1 ! 1) (player ?g)"
    by (simp add: Block_can_enter_def tile_can_enter_def)
  from cur ce have cur': "tiletype (blocks m ! Suc 0 ! Suc 0) = Sludge"
    "item (blocks m ! Suc 0 ! Suc 0) = None"
    "block_x (blocks m ! Suc 0 ! Suc 0) = 1" "block_y (blocks m ! Suc 0 ! Suc 0) = 1"
    "Block_can_enter (blocks m ! Suc 0 ! Suc 0) (player ?g)" by simp_all
  note gs = grid_get_set_same [OF grid on1]
  note r = invalid_direction_own_block [OF a b, THEN conjunct2, THEN conjunct2, rule_format,
      OF conjI [OF m conjI [OF grid conjI [OF on conjI [OF refl conjI [OF refl
         conjI [OF refl conjI [OF refl refl]]]]]]]]
  have "\<exists>g'. take_turn ''jump'' ?g = Return g' \<and>
      player_x (player g') = 1 \<and> player_y (player g') = 1 \<and>
      health (player g') = 84 \<and> hydration (player g') = 100 \<and>
      inventory (player g') = [] \<and>
      calls (shown g') = calls (shown ?g) @ [Call_leave 1 1, Call_enter 1 1] \<and>
      Print_sludge 84 \<in> set (shown g') \<and>
      tile_at g' 1 1 = Some Sludge"
    unfolding r by (simp add: x p cur' gs tile_at_def)
  with a b x t p show ?thesis by blast
qed


end
